theory Spec2Isabelle
  imports Complex_Main "HOL-Library.Multiset"
begin

section \<open>Data received from the server\<close>

text \<open>
  The browser scripts work on the \<open>GAME_STATE\<close> object that the server sends. A card's
  \<open>value\<close> is a JavaScript value: a string or a number when it is transmitted, \<open>null\<close>
  or absent (\<open>undefined\<close>) when it is not. Scores are integers. Characters outside ASCII
  that occur in the scripts' string literals are written as their UTF-8 bytes.
\<close>

datatype jsval = JNull | JUndefined | JStr string | JNum int

type_synonym card_id = nat

record 'v card_of =
  card_id :: card_id
  card_value :: 'v
  isFaceUp :: bool
  isMatched :: bool

type_synonym card = "jsval card_of"

record player =
  color :: string
  score :: int

record gameState =
  gameId :: string
  players :: "player list"
  activePlayerIndex :: nat
  cards :: "card list"
  status :: string

text \<open>JavaScript truthiness of a value, as the test \<open>card.isFaceUp && card.value\<close> reads it.\<close>

fun truthy :: "jsval \<Rightarrow> bool" where
  "truthy JNull = False"
| "truthy JUndefined = False"
| "truthy (JStr s) = (s \<noteq> [])"
| "truthy (JNum n) = (n \<noteq> 0)"

text \<open>Decimal digits of an integer, as string conversion of a number prints them.\<close>

definition digit_char :: "nat \<Rightarrow> char" where
  "digit_char d = char_of (48 + d)"

fun show_nat :: "nat \<Rightarrow> string" where
  "show_nat n = (if n < 10 then [digit_char n] else show_nat (n div 10) @ [digit_char (n mod 10)])"

declare show_nat.simps [simp del]

definition show_int :: "int \<Rightarrow> string" where
  "show_int i = (if i < 0 then CHR ''-'' # show_nat (nat (- i)) else show_nat (nat i))"

fun toString :: "jsval \<Rightarrow> string" where
  "toString JNull = ''null''"
| "toString JUndefined = ''undefined''"
| "toString (JStr s) = s"
| "toString (JNum n) = show_int n"

section \<open>scripts.js: escapeHTML\<close>

text \<open>
  \<open>String(str).replace(/[&<>"']/g, c => table[c])\<close>: every character of the class is
  replaced by its entry of the table, every other character is kept.
\<close>

definition escapeChar :: "char \<Rightarrow> string" where
  "escapeChar c =
     (if c = CHR ''&'' then ''&amp;''
      else if c = CHR ''<'' then ''&lt;''
      else if c = CHR ''>'' then ''&gt;''
      else if c = CHR 0x22 then ''&quot;''
      else if c = CHR 0x27 then ''&#39;''
      else [c])"

fun escapeHTML :: "string \<Rightarrow> string" where
  "escapeHTML [] = []"
| "escapeHTML (c # cs) = escapeChar c @ escapeHTML cs"

section \<open>scripts.js: getWinners\<close>

text \<open>
  \<open>Math.max(...xs)\<close> starts from \<open>-Infinity\<close> and takes the larger value along the
  arguments, so the maximum of no argument is \<open>-Infinity\<close>.
\<close>

datatype number = NegInfinity | Finite int

fun Math_max :: "int list \<Rightarrow> number" where
  "Math_max [] = NegInfinity"
| "Math_max (x # xs) =
     (case Math_max xs of NegInfinity \<Rightarrow> Finite x | Finite m \<Rightarrow> Finite (max x m))"

record winners_result =
  winners :: "player list"
  maxScore :: number

definition getWinners :: "gameState \<Rightarrow> winners_result" where
  "getWinners gs =
     (let maxScore = Math_max (map score (players gs));
          winners = filter (\<lambda>p. Finite (score p) = maxScore) (players gs)
      in \<lparr>winners = winners, maxScore = maxScore\<rparr>)"

section \<open>scripts.js: the page state\<close>

text \<open>
  The module keeps \<open>currentGameState\<close> and \<open>hasShownWinPopupForGameId\<close> and works on
  the elements \<open>#errorBox\<close> and \<open>#cardGrid\<close> of the page (\<open>None\<close>: the page has no
  such element, the case each function tests first) and on the overlays it appends to the
  body. The page's clock \<open>now\<close> counts milliseconds; a pending \<open>setTimeout\<close> callback
  is kept with the time at which it comes due. The calls \<open>gameClient.flipCard(id)\<close>,
  which send the \<open>FLIP_CARD\<close> request, are recorded in the order they are made.
\<close>

datatype listener = CardClick (clickedId: card_id) (clickedMatched: bool)

record cardEl =
  classList :: "string list"
  textContent :: string
  onClick :: listener

datatype timeout_action = ClearErrorBox

datatype overlay_html =
    FromTemplate string string string string
  | Fallback string

record overlay =
  className :: string
  innerHTML :: overlay_html

record client =
  currentGameState :: "gameState option"
  hasShownWinPopupForGameId :: "string option"
  errorBox :: "string option"
  cardGrid :: "cardEl list option"
  overlays :: "overlay list"
  now :: nat
  timeouts :: "(nat \<times> timeout_action) list"
  flipCalls :: "card_id list"

section \<open>scripts.js: onError\<close>








section \<open>scripts.js: renderCards and the click handler\<close>

definition renderCard :: "card \<Rightarrow> cardEl" where
  "renderCard c =
     (let shown = isFaceUp c \<and> truthy (card_value c) in
      \<lparr>classList = [''card''] @ (if shown then [''faceup''] else [])
                     @ (if isMatched c then [''matched''] else []),
       textContent = (if shown then toString (card_value c) else ''?''),
       onClick = CardClick (card_id c) (isMatched c)\<rparr>)"

text \<open>The \<open>forEach\<close> loop: one element is appended to the grid per card, in order.\<close>

fun appendCards :: "card list \<Rightarrow> cardEl list \<Rightarrow> cardEl list" where
  "appendCards [] grid = grid"
| "appendCards (c # cs) grid = appendCards cs (grid @ [renderCard c])"

definition renderCards :: "gameState \<Rightarrow> client \<Rightarrow> client" where
  "renderCards gs st =
     (case cardGrid st of
        None \<Rightarrow> st
      | Some old \<Rightarrow> st\<lparr>cardGrid := Some (appendCards (cards gs) [])\<rparr>)"

text \<open>
  A click on a card element runs the listener: it reads the card it was created for and
  the module's \<open>currentGameState\<close> at the time of the click.
\<close>

fun click :: "listener \<Rightarrow> client \<Rightarrow> client" where
  "click (CardClick cid matched) st =
     (if \<not> matched
         \<and> (case currentGameState st of None \<Rightarrow> False | Some g \<Rightarrow> status g = ''playing'')
      then st\<lparr>flipCalls := flipCalls st @ [cid]\<rparr>
      else st)"

section \<open>scripts.js: showWinPopup\<close>

text \<open>\<open>Array.prototype.join\<close> and the printing of a score or of \<open>-Infinity\<close>.\<close>

fun join :: "string \<Rightarrow> string list \<Rightarrow> string" where
  "join sep [] = []"
| "join sep [x] = x"
| "join sep (x # y # ys) = x @ sep @ join sep (y # ys)"

fun show_number :: "number \<Rightarrow> string" where
  "show_number NegInfinity = ''-Infinity''"
| "show_number (Finite n) = show_int n"

definition draw_title :: string where
  "draw_title = [CHR 0xF0, CHR 0x9F, CHR 0xA4, CHR 0x9D] @ '' It'' @ [CHR 0x27] @ ''s a draw!''"

definition winner_title :: string where
  "winner_title = [CHR 0xF0, CHR 0x9F, CHR 0x8F, CHR 0x86] @ '' We have a winner!''"

definition bullet_sep :: string where
  "bullet_sep = '' '' @ [CHR 0xE2, CHR 0x80, CHR 0xA2] @ '' ''"

datatype js_exception = TypeError

text \<open>
  The winner line. With one winner or none the script reads \<open>winners[0].color\<close>, which
  throws a \<open>TypeError\<close> when there is no winner (an empty players list).
\<close>

definition winnerText :: "bool \<Rightarrow> winners_result \<Rightarrow> string option" where
  "winnerText isDraw r =
     (if isDraw
      then Some (''Winners: '' @ join '', '' (map color (winners r)) @ '' (all with ''
                 @ show_number (maxScore r) @ '' points)'')
      else case winners r of
             [] \<Rightarrow> None
           | w # ws \<Rightarrow> Some (''Winner: '' @ color w @ '' with '' @ show_number (maxScore r)
                             @ '' points!''))"

text \<open>
  The overlay's markup. The modal template is fetched once; \<open>None\<close> stands for a failed
  fetch, where the script builds the markup itself. With a template, the three chained
  \<open>replace\<close> calls put the escaped texts in the place of the template's placeholders; the
  result is kept as the template together with the three texts.
\<close>

definition overlayHtml :: "string option \<Rightarrow> string \<Rightarrow> string \<Rightarrow> string \<Rightarrow> overlay_html" where
  "overlayHtml template title wtext scoreText =
     (case template of
        Some t \<Rightarrow> FromTemplate t (escapeHTML title) (escapeHTML wtext) (escapeHTML scoreText)
      | None \<Rightarrow>
          Fallback (''<div class='' @ [CHR 0x22] @ ''win-modal'' @ [CHR 0x22] @ ''>''
            @ ''<div class='' @ [CHR 0x22] @ ''win-title'' @ [CHR 0x22] @ ''>''
            @ escapeHTML title @ ''</div>''
            @ ''<div class='' @ [CHR 0x22] @ ''win-text'' @ [CHR 0x22] @ ''>''
            @ escapeHTML wtext @ ''</div>''
            @ ''<div class='' @ [CHR 0x22] @ ''win-scores'' @ [CHR 0x22] @ ''>''
            @ escapeHTML scoreText @ ''</div></div>''))"

text \<open>
  showWinPopup: the guard on \<open>hasShownWinPopupForGameId\<close> and the assignment to it come
  first; the overlay is appended to the body once the texts are built. The result pairs
  the exception, if one was thrown, with the page state the call leaves behind. The
  listeners that close an overlay run on later clicks and are not part of the call.
\<close>

definition showWinPopup ::
  "string option \<Rightarrow> gameState \<Rightarrow> client \<Rightarrow> js_exception option \<times> client" where
  "showWinPopup template gs st =
     (if hasShownWinPopupForGameId st = Some (gameId gs) then (None, st)
      else
        let st1 = st\<lparr>hasShownWinPopupForGameId := Some (gameId gs)\<rparr>;
            r = getWinners gs;
            isDraw = (1 < length (winners r));
            title = (if isDraw then draw_title else winner_title)
        in case winnerText isDraw r of
             None \<Rightarrow> (Some TypeError, st1)
           | Some wtext \<Rightarrow>
               (let scoreText =
                      join bullet_sep (map (\<lambda>p. color p @ '': '' @ show_int (score p)) (players gs));
                    ov = \<lparr>className = ''win-overlay'',
                          innerHTML = overlayHtml template title wtext scoreText\<rparr>
                in (None, st1\<lparr>overlays := overlays st1 @ [ov]\<rparr>)))"

text \<open>
  A sequence of calls, each on the page state the previous one left, and the game ids of
  those calls of the sequence that appended an overlay.
\<close>

fun showAll :: "string option \<Rightarrow> gameState list \<Rightarrow> client \<Rightarrow> client" where
  "showAll template [] st = st"
| "showAll template (g # gs) st = showAll template gs (snd (showWinPopup template g st))"

fun overlaysCreatedFor :: "string option \<Rightarrow> gameState list \<Rightarrow> client \<Rightarrow> string list" where
  "overlaysCreatedFor template [] st = []"
| "overlaysCreatedFor template (g # gs) st =
     (let st' = snd (showWinPopup template g st)
      in (if overlays st' = overlays st then [] else [gameId g])
         @ overlaysCreatedFor template gs st')"

section \<open>animations.js and the animator module: launchFullscreenConfetti\<close>

text \<open>
  The document is the tree of elements under \<open>body\<close>. \<open>Math.random()\<close> is a source
  \<open>R\<close> of numbers indexed by the number of draws made so far; the numbers and the style
  values computed from them are exact reals here, where the script has floating point.
\<close>

datatype css_value = Percent real | Seconds real

datatype element =
  Element (tagName: string) (classes: "string list") (style: "(string \<times> css_value) list")
    (childNodes: "element list")


fun appendChild :: "element \<Rightarrow> element \<Rightarrow> element" where
  "appendChild (Element t cs st kids) e = Element t cs st (kids @ [e])"










section \<open>scene.js: updateFromGameState\<close>

text \<open>
  The module keeps the array \<open>cards\<close> of card objects (here \<open>sceneCards\<close>), each with the
  mesh it added to the three.js scene, and the card model \<open>fbxTemplate\<close>, which stays
  \<open>null\<close> when loading it failed or has not finished. Meshes are told apart by a handle;
  a new mesh gets the next handle, and a card object is the same object as long as it has
  the same mesh. Textures, positions, the input lock and the camera do not bear on which
  cards are held and are left out.

  updateFromGameState is an \<open>async\<close> function. It gives up control at
  \<open>await Promise.all(loadPromises)\<close> and at every \<open>await animateFlip(...)\<close>, and other
  calls of it may run in between, on the same array. A call is therefore a task that is
  resumed piece by piece; what it still has to do is kept in the task.
\<close>

record cardObj = "jsval card_of" +
  mesh :: nat

record scene3d =
  sceneCards :: "cardObj list"
  sceneChildren :: "nat list"
  fbxTemplateLoaded :: bool
  nextMesh :: nat

text \<open>createCardInstance returns \<open>null\<close> without a template; otherwise it adds the clone to the scene.\<close>

definition createCardInstance :: "card_id \<Rightarrow> jsval \<Rightarrow> scene3d \<Rightarrow> cardObj option \<times> scene3d" where
  "createCardInstance cid v s =
     (if \<not> fbxTemplateLoaded s then (None, s)
      else (Some \<lparr>card_id = cid, card_value = v, isFaceUp = False, isMatched = False,
                  mesh = nextMesh s\<rparr>,
            s\<lparr>sceneChildren := sceneChildren s @ [nextMesh s], nextMesh := nextMesh s + 1\<rparr>))"

text \<open>Removing the cards of a previous game whose id is not in the new state.\<close>

definition removeStale :: "gameState \<Rightarrow> scene3d \<Rightarrow> scene3d" where
  "removeStale gs s =
     (let newGameCardIds = set (map card_id (cards gs));
          cardsToRemove = filter (\<lambda>c. card_id c \<notin> newGameCardIds) (sceneCards s)
      in if cardsToRemove \<noteq> []
         then s\<lparr>sceneChildren := fold (\<lambda>c kids. removeAll (mesh c) kids) cardsToRemove (sceneChildren s),
                sceneCards := filter (\<lambda>c. card_id c \<in> newGameCardIds) (sceneCards s)\<rparr>
         else s)"

text \<open>Creating the cards that are missing, in the order of the state's cards.\<close>

fun createMissing :: "card list \<Rightarrow> scene3d \<Rightarrow> scene3d" where
  "createMissing [] s = s"
| "createMissing (c # cs) s =
     createMissing cs
       (case find (\<lambda>x. card_id x = card_id c) (sceneCards s) of
          Some existing \<Rightarrow> s
        | None \<Rightarrow>
            (case createCardInstance (card_id c) (card_value c) s of
               (None, s') \<Rightarrow> s'
             | (Some inst, s') \<Rightarrow> s'\<lparr>sceneCards := sceneCards s' @ [inst]\<rparr>))"

text \<open>The second removal pass, over a copy of the array taken before the pass.\<close>

fun removeExtra :: "gameState \<Rightarrow> cardObj list \<Rightarrow> scene3d \<Rightarrow> scene3d" where
  "removeExtra gs [] s = s"
| "removeExtra gs (c # cs) s =
     removeExtra gs cs
       (if find (\<lambda>g. card_id g = card_id c) (cards gs) = None
        then s\<lparr>sceneChildren := removeAll (mesh c) (sceneChildren s),
               sceneCards := filter (\<lambda>x. card_id x \<noteq> card_id c) (sceneCards s)\<rparr>
        else s)"

text \<open>An assignment to a field of a card object, which is found by its mesh.\<close>

definition mutate :: "nat \<Rightarrow> (cardObj \<Rightarrow> cardObj) \<Rightarrow> scene3d \<Rightarrow> scene3d" where
  "mutate h f s = s\<lparr>sceneCards := map (\<lambda>c. if mesh c = h then f c else c) (sceneCards s)\<rparr>"

text \<open>
  Where a call waits: for the textures of its game state, or for the flip animation of the
  card object \<open>local\<close> (given by its mesh), with the face it will record for that object
  and the cards of its game state that the loop has not visited yet.
\<close>

datatype update_task =
    AwaitTextures gameState
  | AwaitFlip nat bool "card list"
  | Finished

text \<open>
  The loop \<open>for (const g of gameState.cards)\<close>, from the given card on up to the next
  \<open>await animateFlip\<close> or to the end of the function. \<open>local\<close> is the first held card
  with the id of \<open>g\<close>; its matched flag is only ever set, and when its face differs from
  that of \<open>g\<close> its value is updated and the flip is awaited.
\<close>

fun syncFrom :: "card list \<Rightarrow> scene3d \<Rightarrow> update_task \<times> scene3d" where
  "syncFrom [] s = (Finished, s)"
| "syncFrom (g # rest) s =
     (case find (\<lambda>c. card_id c = card_id g) (sceneCards s) of
        None \<Rightarrow> syncFrom rest s
      | Some local \<Rightarrow>
          (let s1 = (if isMatched g \<and> \<not> isMatched local
                     then mutate (mesh local) (\<lambda>c. c\<lparr>isMatched := True\<rparr>) s else s)
           in if isFaceUp g \<noteq> isFaceUp local
              then (AwaitFlip (mesh local) (isFaceUp g) rest,
                    mutate (mesh local) (\<lambda>c. c\<lparr>card_value := card_value g\<rparr>) s1)
              else syncFrom rest s1))"

text \<open>
  Resuming a call. After the textures: the two removal passes and the creation of the
  missing cards, then the loop. After a flip animation: \<open>local.isFaceUp = g.isFaceUp\<close> on
  the object the call held when it started to wait, then the rest of the loop.
\<close>

fun resume :: "update_task \<Rightarrow> scene3d \<Rightarrow> update_task \<times> scene3d" where
  "resume (AwaitTextures gs) s =
     (let s1 = removeStale gs s;
          s2 = createMissing (cards gs) s1;
          s3 = removeExtra gs (sceneCards s2) s2
      in syncFrom (cards gs) s3)"
| "resume (AwaitFlip h up rest) s = syncFrom rest (mutate h (\<lambda>c. c\<lparr>isFaceUp := up\<rparr>) s)"
| "resume Finished s = (Finished, s)"

text \<open>
  The call itself, up to its first \<open>await\<close>. \<open>None\<close> stands for a call without a game
  state or with one that has no \<open>cards\<close>, where the function returns at once.
\<close>

fun startUpdate :: "gameState option \<Rightarrow> update_task" where
  "startUpdate None = Finished"
| "startUpdate (Some gs) = AwaitTextures gs"

fun taskSize :: "update_task \<Rightarrow> nat" where
  "taskSize (AwaitTextures gs) = Suc (Suc (length (cards gs)))"
| "taskSize (AwaitFlip h up rest) = Suc (length rest)"
| "taskSize Finished = 0"

text \<open>A call that is resumed until it has finished, with no other call resumed in between.\<close>

function runToEnd :: "update_task \<Rightarrow> scene3d \<Rightarrow> scene3d" where
  "runToEnd t s = (if t = Finished then s else runToEnd (fst (resume t s)) (snd (resume t s)))"
  by pat_completeness auto
termination
proof (relation "measure (\<lambda>(t, s). taskSize t)")
  show "wf (measure (\<lambda>(t, s). taskSize t))"
    by simp
next
  fix t :: update_task and s :: scene3d
  assume t: "t \<noteq> Finished"
  have sz: "taskSize (fst (syncFrom cs s')) \<le> length cs" for cs s'
  proof (induction cs arbitrary: s')
    case Nil
    show ?case by simp
  next
    case (Cons g rest)
    show ?case
    proof (cases "find (\<lambda>c. card_id c = card_id g) (sceneCards s')")
      case None
      then show ?thesis using Cons.IH [of s'] by simp
    next
      case (Some local)
      let ?s1 = "if isMatched g \<and> \<not> isMatched local
                 then mutate (mesh local) (\<lambda>c. c\<lparr>isMatched := True\<rparr>) s' else s'"
      show ?thesis
      proof (cases "isFaceUp g \<noteq> isFaceUp local")
        case True
        then show ?thesis using Some by (simp add: Let_def)
      next
        case False
        then show ?thesis using Some Cons.IH [of ?s1] by (simp add: Let_def)
      qed
    qed
  qed
  have "taskSize (fst (resume t s)) < taskSize t"
  proof (cases t)
    case (AwaitTextures gs)
    then show ?thesis
      using sz [of "cards gs"] by (simp add: Let_def less_Suc_eq_le le_SucI)
  next
    case (AwaitFlip h up rest)
    then show ?thesis
      using sz [of rest] by (simp add: less_Suc_eq_le)
  next
    case Finished
    with t show ?thesis by simp
  qed
  then show "((fst (resume t s), snd (resume t s)), (t, s)) \<in> measure (\<lambda>(t, s). taskSize t)"
    by (simp add: case_prod_unfold)
qed

declare runToEnd.simps [simp del]

text \<open>updateFromGameState as one call that is not interrupted by another update.\<close>

definition updateFromGameState :: "gameState option \<Rightarrow> scene3d \<Rightarrow> scene3d" where
  "updateFromGameState gso s = runToEnd (startUpdate gso) s"

text \<open>
  What happens to the scene module over time: the card model finishes loading (initScene),
  updateFromGameState is called with a game state, or one of the calls that wait is resumed.
  The calls are numbered in the order they were made.
\<close>

datatype scene_event = TemplateLoaded | Call "gameState option" | Resume nat

fun sceneStep :: "scene_event \<Rightarrow> update_task list \<times> scene3d \<Rightarrow> update_task list \<times> scene3d" where
  "sceneStep TemplateLoaded (ts, s) = (ts, s\<lparr>fbxTemplateLoaded := True\<rparr>)"
| "sceneStep (Call gso) (ts, s) = (ts @ [startUpdate gso], s)"
| "sceneStep (Resume i) (ts, s) =
     (if i < length ts then (ts[i := fst (resume (ts ! i) s)], snd (resume (ts ! i) s))
      else (ts, s))"

fun runScene :: "scene_event list \<Rightarrow> update_task list \<times> scene3d \<Rightarrow> update_task list \<times> scene3d" where
  "runScene [] p = p"
| "runScene (e # es) p = runScene es (sceneStep e p)"

section \<open>The game session engine\<close>

text \<open>
  The server modules (board generation, game state, move resolution, serialization of the
  \<open>GAME_STATE\<close> message) are not among the sources, which are the browser scripts. Each
  definition of this section is therefore written from the specification and says which
  part of it.
\<close>

text \<open>
  Modelled from the spec: the Card of section 3 as the server holds it (the server's card
  module is missing). It always carries its symbol.
\<close>

type_synonym server_card = "string card_of"

text \<open>
  Modelled from the spec: the game's status, one of waiting, playing, resolving and won
  (section 3; the server's game state module is missing).
\<close>

datatype game_status = Waiting | Playing | Resolving | Won

text \<open>
  Modelled from the spec: the error taxonomy of section 7 (the server's error types are
  missing).
\<close>

datatype engine_error =
  ConfigurationError | InvalidMoveError | NotFoundError | CapacityError | ProtocolError

text \<open>
  Modelled from the spec: the Player of section 3 (the server's player record is missing);
  \<open>connected\<close> says whether the connection reference is present.
\<close>

record server_player =
  slotIndex :: nat
  colorOrLabel :: string
  slot_score :: nat
  connected :: bool

text \<open>
  Modelled from the spec: the Game of section 3 (the server's game state module is
  missing). \<open>flippedCardIds\<close> holds the flipped ids in the order of the flips;
  \<open>pendingFlipBack\<close> is the scheduled, cancellable flip-back of sections 4.3 and 5.
\<close>

record game =
  game_id :: string
  game_cards :: "server_card list"
  game_players :: "server_player list"
  game_activePlayerIndex :: nat
  flippedCardIds :: "card_id list"
  game_status :: game_status
  pendingFlipBack :: bool

subsection \<open>Board Generator\<close>

text \<open>
  Modelled from the spec: the exchange of two positions, the step of the Fisher-Yates
  shuffle of section 4.1 (the server's shuffle module is missing).
\<close>

definition swap :: "nat \<Rightarrow> nat \<Rightarrow> 'a list \<Rightarrow> 'a list" where
  "swap i j xs = xs[i := xs ! j, j := xs ! i]"

text \<open>
  Modelled from the spec: the Fisher-Yates loop of section 4.1 with an injected random
  source (the server's shuffle module is missing). The positions are visited from \<open>i\<close>
  down to 1; \<open>rnd\<close> gives the draw for a position, which is reduced to an index in
  \<open>0..i\<close>, and the two positions are exchanged.
\<close>

fun fisherYates :: "(nat \<Rightarrow> nat) \<Rightarrow> nat \<Rightarrow> 'a list \<Rightarrow> 'a list" where
  "fisherYates rnd 0 xs = xs"
| "fisherYates rnd (Suc i) xs =
     fisherYates rnd i (swap (Suc i) (rnd (Suc i) mod (Suc (Suc i))) xs)"

text \<open>
  Modelled from the spec: the shuffle over the full sequence, from the last position
  (section 4.1; the server's shuffle module is missing).
\<close>

definition shuffle :: "(nat \<Rightarrow> nat) \<Rightarrow> 'a list \<Rightarrow> 'a list" where
  "shuffle rnd xs = fisherYates rnd (length xs - 1) xs"

text \<open>
  Modelled from the spec: duplicating each selected symbol into two cards (section 4.1;
  the server's board generation module is missing).
\<close>

definition pairUp :: "string list \<Rightarrow> string list" where
  "pairUp symbols = concat (map (\<lambda>s. [s, s]) symbols)"

text \<open>
  Modelled from the spec: assigning sequential unique ids; all cards start face down and
  unmatched (section 4.1; the server's board generation module is missing).
\<close>

definition makeCards :: "string list \<Rightarrow> server_card list" where
  "makeCards vs =
     map (\<lambda>(i, v). \<lparr>card_id = i, card_value = v, isFaceUp = False, isMatched = False\<rparr>)
       (enumerate 0 vs)"

text \<open>
  Modelled from the spec: \<open>generate(pairCount, symbolSet)\<close> of section 4.1 (the server's
  board generation module is missing). It fails with \<open>ConfigurationError\<close> unless
  \<open>pairCount\<close> is at most the number of symbols of the set, selects \<open>pairCount\<close> distinct
  symbols, pairs them, numbers the cards and shuffles them. The symbol set is given as a
  list; repeated entries count once.
\<close>

definition generate :: "nat \<Rightarrow> string list \<Rightarrow> (nat \<Rightarrow> nat) \<Rightarrow> engine_error + server_card list" where
  "generate pairCount symbolSet rnd =
     (if length (remdups symbolSet) < pairCount then Inl ConfigurationError
      else Inr (shuffle rnd (makeCards (pairUp (take pairCount (remdups symbolSet))))))"

subsection \<open>Game State\<close>

text \<open>
  Modelled from the spec: looking a card up by its id, which section 4.3 needs to tell an
  unknown card (the server's game state module is missing).
\<close>

definition findCard :: "card_id \<Rightarrow> game \<Rightarrow> server_card option" where
  "findCard cid g = find (\<lambda>c. card_id c = cid) (game_cards g)"

text \<open>
  Modelled from the spec: the mutation primitive \<open>setFaceUp(cardId, bool)\<close> of section 4.2
  (the server's game state module is missing).
\<close>

definition setFaceUp :: "card_id \<Rightarrow> bool \<Rightarrow> game \<Rightarrow> game" where
  "setFaceUp cid b g =
     g\<lparr>game_cards := map (\<lambda>c. if card_id c = cid then c\<lparr>isFaceUp := b\<rparr> else c) (game_cards g)\<rparr>"

text \<open>
  Modelled from the spec: the mutation primitive \<open>setMatched(cardId)\<close> of section 4.2 (the
  server's game state module is missing).
\<close>

definition setMatched :: "card_id \<Rightarrow> game \<Rightarrow> game" where
  "setMatched cid g =
     g\<lparr>game_cards := map (\<lambda>c. if card_id c = cid then c\<lparr>isMatched := True\<rparr> else c) (game_cards g)\<rparr>"

text \<open>
  Modelled from the spec: the mutation primitive \<open>advanceTurn()\<close> of section 4.2 (the
  server's game state module is missing); it moves the turn to
  \<open>(current + 1) mod playerCount\<close> (section 4.3), with no policy for skipping slots enabled.
\<close>

definition advanceTurn :: "game \<Rightarrow> game" where
  "advanceTurn g =
     g\<lparr>game_activePlayerIndex := (game_activePlayerIndex g + 1) mod length (game_players g)\<rparr>"

text \<open>
  Modelled from the spec: the mutation primitive \<open>addScore(slotIndex, n)\<close> of section 4.2
  (the server's game state module is missing).
\<close>

definition addScore :: "nat \<Rightarrow> nat \<Rightarrow> game \<Rightarrow> game" where
  "addScore slot n g =
     g\<lparr>game_players :=
         map (\<lambda>p. if slotIndex p = slot then p\<lparr>slot_score := slot_score p + n\<rparr> else p)
           (game_players g)\<rparr>"

text \<open>
  Modelled from the spec: the redacted view of a card (section 4.2; the server's
  serializer is missing). A card that is not face up has its value nulled, whoever asks.
\<close>

definition redact :: "server_card \<Rightarrow> card" where
  "redact c =
     \<lparr>card_id = card_id c,
      card_value = (if isFaceUp c then JStr (card_value c) else JNull),
      isFaceUp = isFaceUp c,
      isMatched = isMatched c\<rparr>"

text \<open>
  Modelled from the spec: the status as the \<open>GAME_STATE\<close> message carries it (section 6;
  the server's serializer is missing).
\<close>

fun statusName :: "game_status \<Rightarrow> string" where
  "statusName Waiting = ''waiting''"
| "statusName Playing = ''playing''"
| "statusName Resolving = ''resolving''"
| "statusName Won = ''won''"

text \<open>
  Modelled from the spec: the \<open>GAME_STATE\<close> payload of section 6, the redacted snapshot
  that is sent to every member of the game (the server's serializer is missing).
\<close>

definition redactedSnapshot :: "game \<Rightarrow> gameState" where
  "redactedSnapshot g =
     \<lparr>gameId = game_id g,
      players = map (\<lambda>p. \<lparr>color = colorOrLabel p, score = int (slot_score p)\<rparr>) (game_players g),
      activePlayerIndex = game_activePlayerIndex g,
      cards = map redact (game_cards g),
      status = statusName (game_status g)\<rparr>"

subsection \<open>Turn Resolver\<close>

text \<open>
  Modelled from the spec: step 4 of section 4.3, the comparison of the two flipped cards
  (the server's move resolution module is missing). On a match both cards are marked
  matched, the active player scores one point, the flipped set is cleared and the game
  returns to \<open>playing\<close>, or goes to \<open>won\<close> when every card is matched. On a mismatch the
  game stays in \<open>resolving\<close> and the flip-back is scheduled.
\<close>

definition resolvePair :: "card_id \<Rightarrow> card_id \<Rightarrow> game \<Rightarrow> game" where
  "resolvePair a b g =
     (case (findCard a g, findCard b g) of
        (Some ca, Some cb) \<Rightarrow>
          if card_value ca = card_value cb
          then (let g1 = addScore (game_activePlayerIndex g) 1 (setMatched b (setMatched a g));
                    g2 = g1\<lparr>flippedCardIds := []\<rparr>
                in g2\<lparr>game_status := (if list_all isMatched (game_cards g2) then Won else Playing)\<rparr>)
          else g\<lparr>pendingFlipBack := True\<rparr>
      | _ \<Rightarrow> g)"

text \<open>
  Modelled from the spec: the \<open>FLIP(cardId)\<close> transition of section 4.3, steps 1 to 4 (the
  server's move resolution module is missing). The request is valid only in \<open>playing\<close>
  and is rejected with \<open>InvalidMoveError\<close> when the requester is not the active player,
  the card is unknown, matched or already face up, or two cards are already flipped.
\<close>

definition flip :: "nat \<Rightarrow> card_id \<Rightarrow> game \<Rightarrow> engine_error + game" where
  "flip slot cid g =
     (if game_status g \<noteq> Playing then Inl InvalidMoveError
      else if slot \<noteq> game_activePlayerIndex g then Inl InvalidMoveError
      else case findCard cid g of
        None \<Rightarrow> Inl InvalidMoveError
      | Some c \<Rightarrow>
          if isMatched c \<or> isFaceUp c \<or> 2 \<le> length (flippedCardIds g)
          then Inl InvalidMoveError
          else (let g1 = (setFaceUp cid True g)\<lparr>flippedCardIds := flippedCardIds g @ [cid]\<rparr>
                in case flippedCardIds g1 of
                     [a, b] \<Rightarrow> Inr (resolvePair a b (g1\<lparr>game_status := Resolving\<rparr>))
                   | _ \<Rightarrow> Inr g1))"

text \<open>
  Modelled from the spec: the deferred callback of the no-match branch (section 4.3, step 4,
  and section 5; the server's move resolution module is missing). When the reveal delay
  has passed and the flip-back is still pending, the flipped cards are turned face down, the
  flipped set is cleared, the turn advances and the game returns to \<open>playing\<close>.
\<close>

definition flipBack :: "game \<Rightarrow> game" where
  "flipBack g =
     (if pendingFlipBack g
      then advanceTurn
             ((fold (\<lambda>cid. setFaceUp cid False) (flippedCardIds g) g)
                \<lparr>flippedCardIds := [], game_status := Playing, pendingFlipBack := False\<rparr>)
      else g)"

section \<open>Relations and example states used in the statements\<close>

text \<open>
  Two cards look the same to a player when they agree on everything but the value of a card
  that is face down.
\<close>

definition sameVisible :: "card \<Rightarrow> card \<Rightarrow> bool" where
  "sameVisible c c' =
     (card_id c' = card_id c \<and> isFaceUp c' = isFaceUp c \<and> isMatched c' = isMatched c
      \<and> (isFaceUp c \<longrightarrow> card_value c' = card_value c))"

text \<open>The ids of the card objects the scene module holds.\<close>

definition heldIds :: "scene3d \<Rightarrow> card_id set" where
  "heldIds s = set (map card_id (sceneCards s))"

text \<open>
  Two states of the scene module that hold the same card objects, in the same order, with
  the same meshes in the scene: they differ at most in the values and flags of the cards.
\<close>

definition sameHeld :: "scene3d \<Rightarrow> scene3d \<Rightarrow> bool" where
  "sameHeld s s' =
     (map card_id (sceneCards s') = map card_id (sceneCards s)
      \<and> map mesh (sceneCards s') = map mesh (sceneCards s)
      \<and> sceneChildren s' = sceneChildren s
      \<and> fbxTemplateLoaded s' = fbxTemplateLoaded s
      \<and> nextMesh s' = nextMesh s)"

text \<open>
  What every state of the scene module satisfies: no card is held as long as the card model
  is not loaded, the mesh of every held card has a handle that was issued, and no two held
  cards share a mesh.
\<close>

definition sceneOk :: "scene3d \<Rightarrow> bool" where
  "sceneOk s =
     ((\<not> fbxTemplateLoaded s \<longrightarrow> sceneCards s = [])
      \<and> (\<forall>c \<in> set (sceneCards s). mesh c < nextMesh s)
      \<and> distinct (map mesh (sceneCards s)))"

definition tieGame :: gameState where
  "tieGame = \<lparr>gameId = ''g1'',
     players = [\<lparr>color = ''red'', score = 3\<rparr>, \<lparr>color = ''blue'', score = 3\<rparr>,
                \<lparr>color = ''green'', score = 1\<rparr>],
     activePlayerIndex = 0, cards = [], status = ''won''\<rparr>"

definition examplePage :: client where
  "examplePage = \<lparr>currentGameState = None, hasShownWinPopupForGameId = None,
     errorBox = Some [], cardGrid = Some [], overlays = [], now = 0, timeouts = [],
     flipCalls = []\<rparr>"

definition mismatchGame :: game where
  "mismatchGame = \<lparr>game_id = ''g1'',
     game_cards = [\<lparr>card_id = 0, card_value = ''A'', isFaceUp = True, isMatched = False\<rparr>,
                   \<lparr>card_id = 1, card_value = ''B'', isFaceUp = False, isMatched = False\<rparr>,
                   \<lparr>card_id = 2, card_value = ''A'', isFaceUp = False, isMatched = False\<rparr>,
                   \<lparr>card_id = 3, card_value = ''B'', isFaceUp = False, isMatched = False\<rparr>],
     game_players = [\<lparr>slotIndex = 0, colorOrLabel = ''red'', slot_score = 0, connected = True\<rparr>,
                     \<lparr>slotIndex = 1, colorOrLabel = ''blue'', slot_score = 0, connected = True\<rparr>],
     game_activePlayerIndex = 0, flippedCardIds = [0], game_status = Playing,
     pendingFlipBack = False\<rparr>"

definition otherGame :: gameState where
  "otherGame = tieGame\<lparr>gameId := ''g2''\<rparr>"


text \<open>The scene module as it starts: no card, no mesh, the card model not loaded.\<close>

definition sceneWithoutTemplate :: scene3d where
  "sceneWithoutTemplate = \<lparr>sceneCards = [], sceneChildren = [], fbxTemplateLoaded = False, nextMesh = 0\<rparr>"

definition sceneOfOldGame :: scene3d where
  "sceneOfOldGame = \<lparr>sceneCards =
       [\<lparr>card_id = 0, card_value = JNull, isFaceUp = False, isMatched = False, mesh = 0\<rparr>,
        \<lparr>card_id = 9, card_value = JStr ''H'', isFaceUp = True, isMatched = True, mesh = 1\<rparr>],
     sceneChildren = [0, 1], fbxTemplateLoaded = True, nextMesh = 2\<rparr>"

text \<open>The snapshot of \<open>mismatchGame\<close>, and the same with other values under the hidden cards.\<close>

definition snapshotA :: gameState where
  "snapshotA = redactedSnapshot mismatchGame"

definition snapshotB :: gameState where
  "snapshotB = snapshotA\<lparr>cards :=
     [\<lparr>card_id = 0, card_value = JStr ''A'', isFaceUp = True, isMatched = False\<rparr>,
      \<lparr>card_id = 1, card_value = JStr ''Q'', isFaceUp = False, isMatched = False\<rparr>,
      \<lparr>card_id = 2, card_value = JNum 7, isFaceUp = False, isMatched = False\<rparr>,
      \<lparr>card_id = 3, card_value = JUndefined, isFaceUp = False, isMatched = False\<rparr>]\<rparr>"

text \<open>
  Boards for the scene module: one with other ids than the snapshot above, the board that
  leaves \<open>sceneOfOldGame\<close> behind, and a new board that uses the ids of that one again.
\<close>

definition otherBoard :: gameState where
  "otherBoard = \<lparr>gameId = ''g2'', players = [], activePlayerIndex = 0,
     cards = [\<lparr>card_id = 100, card_value = JNull, isFaceUp = False, isMatched = False\<rparr>,
              \<lparr>card_id = 101, card_value = JNull, isFaceUp = False, isMatched = False\<rparr>],
     status = ''playing''\<rparr>"

definition oldBoard :: gameState where
  "oldBoard = \<lparr>gameId = ''g0'', players = [], activePlayerIndex = 0,
     cards = [\<lparr>card_id = 0, card_value = JNull, isFaceUp = False, isMatched = False\<rparr>,
              \<lparr>card_id = 9, card_value = JStr ''H'', isFaceUp = True, isMatched = True\<rparr>],
     status = ''playing''\<rparr>"

definition reusedBoard :: gameState where
  "reusedBoard = \<lparr>gameId = ''g3'', players = [], activePlayerIndex = 0,
     cards = [\<lparr>card_id = 0, card_value = JNull, isFaceUp = False, isMatched = False\<rparr>,
              \<lparr>card_id = 9, card_value = JNull, isFaceUp = False, isMatched = False\<rparr>],
     status = ''playing''\<rparr>"

text \<open>
  Two calls that overlap: the first one waits for the flip animation of its face-up card
  when the second one is made; the second runs to its end, then the first is resumed.
\<close>

definition overlappingCalls :: "scene_event list" where
  "overlappingCalls =
     [TemplateLoaded, Call (Some snapshotA), Resume 0, Call (Some otherBoard), Resume 1, Resume 0]"

section \<open>Hidden card values\<close>

lemma appendCards_map: "appendCards cs grid = grid @ map renderCard cs"
  by (induction cs arbitrary: grid) simp_all

lemma renderCard_sameVisible: "sameVisible c c' \<Longrightarrow> renderCard c' = renderCard c"
  by (cases "isFaceUp c") (auto simp: sameVisible_def renderCard_def Let_def)

lemma map_renderCard_sameVisible:
  "list_all2 sameVisible cs cs' \<Longrightarrow> map renderCard cs' = map renderCard cs"
  by (induction cs cs' rule: list_all2_induct) (simp_all add: renderCard_sameVisible)

text \<open>
  C1. In the \<open>GAME_STATE\<close> payload a card's value is present exactly when the card is face
  up (the payload is the redacted snapshot of the specification, section 4.2 and 6). The
  board renderer of scripts.js writes \<open>?\<close> for every card that is not face up with a value
  present, so it shows a value only for such a card (it tests the value for truthiness, so
  a face-up card whose value is the empty string or 0 gets \<open>?\<close> as well). Two game
  states whose cards differ only in the values of face-down cards are rendered to the same
  page.
\<close>

theorem C1_hidden_values:
  "(\<forall>c \<in> set (cards (redactedSnapshot g)).
        (card_value c \<noteq> JNull \<and> card_value c \<noteq> JUndefined) = isFaceUp c)
   \<and> (\<not> (isFaceUp c \<and> card_value c \<noteq> JNull \<and> card_value c \<noteq> JUndefined)
         \<longrightarrow> textContent (renderCard c) = ''?'')
   \<and> textContent (renderCard c) =
        (if isFaceUp c \<and> truthy (card_value c) then toString (card_value c) else ''?'')
   \<and> (list_all2 sameVisible (cards gs) (cards gs') \<longrightarrow> renderCards gs' st = renderCards gs st)"
proof (intro conjI)
  show "\<forall>c \<in> set (cards (redactedSnapshot g)).
        (card_value c \<noteq> JNull \<and> card_value c \<noteq> JUndefined) = isFaceUp c"
  proof
    fix c assume "c \<in> set (cards (redactedSnapshot g))"
    then obtain s where "c = redact s"
      by (auto simp: redactedSnapshot_def)
    then show "(card_value c \<noteq> JNull \<and> card_value c \<noteq> JUndefined) = isFaceUp c"
      by (simp add: redact_def)
  qed
next
  show "\<not> (isFaceUp c \<and> card_value c \<noteq> JNull \<and> card_value c \<noteq> JUndefined)
         \<longrightarrow> textContent (renderCard c) = ''?''"
    by (cases "card_value c") (auto simp: renderCard_def)
next
  show "textContent (renderCard c) =
        (if isFaceUp c \<and> truthy (card_value c) then toString (card_value c) else ''?'')"
    by (simp add: renderCard_def Let_def)
next
  show "list_all2 sameVisible (cards gs) (cards gs') \<longrightarrow> renderCards gs' st = renderCards gs st"
    by (simp add: renderCards_def appendCards_map map_renderCard_sameVisible split: option.splits)
qed

theorem C1_hidden_values_witness:
  "list_all2 sameVisible (cards snapshotA) (cards snapshotB)
   \<and> cards snapshotA \<noteq> cards snapshotB
   \<and> renderCards snapshotB examplePage = renderCards snapshotA examplePage
   \<and> textContent (renderCard \<lparr>card_id = 1, card_value = JStr ''Q'', isFaceUp = False, isMatched = False\<rparr>) = ''?''
   \<and> list_all (\<lambda>c. (card_value c \<noteq> JNull \<and> card_value c \<noteq> JUndefined) = isFaceUp c)
         (cards (redactedSnapshot mismatchGame))"
proof -
  have h: "list_all2 sameVisible (cards snapshotA) (cards snapshotB)"
    by (simp add: snapshotA_def snapshotB_def redactedSnapshot_def mismatchGame_def
        redact_def sameVisible_def)
  have d: "cards snapshotA \<noteq> cards snapshotB"
    by (simp add: snapshotA_def snapshotB_def redactedSnapshot_def mismatchGame_def redact_def)
  show ?thesis
    using h d
      C1_hidden_values [of mismatchGame
        "\<lparr>card_id = 1, card_value = JStr ''Q'', isFaceUp = False, isMatched = False\<rparr>"
        snapshotA snapshotB examplePage]
    by (simp add: list_all_iff)
qed

section \<open>Winners\<close>

lemma Math_max_eq: "Math_max xs = (if xs = [] then NegInfinity else Finite (Max (set xs)))"
proof (induction xs)
  case Nil
  show ?case by simp
next
  case (Cons x xs)
  show ?case
  proof (cases "xs = []")
    case True
    then show ?thesis by simp
  next
    case False
    then have "Max (set (x # xs)) = max x (Max (set xs))"
      by simp
    with Cons False show ?thesis by simp
  qed
qed

text \<open>
  C2. For a game state with at least one player, getWinners returns the maximum score
  and exactly the players whose score is that maximum, in the order of the players list;
  every player who shares the maximum is among them, so there is at least one winner and
  a tie gives several.
\<close>

theorem C2_getWinners:
  assumes "players gs \<noteq> []"
  shows "maxScore (getWinners gs) = Finite (Max (set (map score (players gs))))
       \<and> winners (getWinners gs) =
           filter (\<lambda>p. score p = Max (set (map score (players gs)))) (players gs)
       \<and> set (winners (getWinners gs)) =
           {p \<in> set (players gs). score p = Max (set (map score (players gs)))}
       \<and> winners (getWinners gs) \<noteq> []"
proof -
  let ?M = "Max (set (map score (players gs)))"
  have m: "Math_max (map score (players gs)) = Finite ?M"
    using assms by (simp add: Math_max_eq)
  have w: "winners (getWinners gs) = filter (\<lambda>p. score p = ?M) (players gs)"
    by (simp add: getWinners_def Let_def m)
  have "?M \<in> set (map score (players gs))"
    using assms by (intro Max_in) simp_all
  then obtain p where "p \<in> set (players gs)" "score p = ?M"
    by auto
  then have ne: "filter (\<lambda>p. score p = ?M) (players gs) \<noteq> []"
    by (auto simp: filter_empty_conv)
  show ?thesis
    using m w ne by (auto simp: getWinners_def Let_def)
qed

theorem C2_getWinners_witness:
  "players tieGame \<noteq> []
   \<and> maxScore (getWinners tieGame) = Finite 3
   \<and> winners (getWinners tieGame) = [\<lparr>color = ''red'', score = 3\<rparr>, \<lparr>color = ''blue'', score = 3\<rparr>]"
proof -
  have h: "players tieGame \<noteq> []" by (simp add: tieGame_def)
  have "Max (set (map score (players tieGame))) = 3" by (simp add: tieGame_def)
  with C2_getWinners [OF h] h show ?thesis
    by (simp add: tieGame_def)
qed

section \<open>Resolution of a mismatched pair\<close>

lemma find_map_faceUp:
  "find (\<lambda>c. card_id c = x) (map (\<lambda>c. if card_id c = y then c\<lparr>isFaceUp := b\<rparr> else c) cs)
     = map_option (\<lambda>c. if card_id c = y then c\<lparr>isFaceUp := b\<rparr> else c)
         (find (\<lambda>c. card_id c = x) cs)"
  by (induction cs) simp_all

lemma findCard_setFaceUp:
  "findCard x (setFaceUp y b g) =
     map_option (\<lambda>c. if card_id c = y then c\<lparr>isFaceUp := b\<rparr> else c) (findCard x g)"
  by (simp add: findCard_def setFaceUp_def find_map_faceUp)

lemma setFaceUp_fields [simp]:
  "game_players (setFaceUp y b g) = game_players g"
  "game_activePlayerIndex (setFaceUp y b g) = game_activePlayerIndex g"
  "flippedCardIds (setFaceUp y b g) = flippedCardIds g"
  "game_status (setFaceUp y b g) = game_status g"
  "pendingFlipBack (setFaceUp y b g) = pendingFlipBack g"
  by (simp_all add: setFaceUp_def)

lemma findCard_id: "findCard x g = Some c \<Longrightarrow> card_id c = x"
  by (auto simp: findCard_def find_Some_iff)

lemma findCard_cong: "game_cards g = game_cards g' \<Longrightarrow> findCard x g = findCard x g'"
  by (simp add: findCard_def)

lemma setFaceUp_ids: "map card_id (game_cards (setFaceUp y b g)) = map card_id (game_cards g)"
  by (simp add: setFaceUp_def comp_def if_distrib [of card_id] cong: if_cong)

lemma faceDown_after:
  assumes "c \<in> set (game_cards (setFaceUp b False (setFaceUp a False g)))"
    and "card_id c = a \<or> card_id c = b"
  shows "\<not> isFaceUp c"
proof -
  let ?f = "\<lambda>y c. if card_id c = y then c\<lparr>isFaceUp := False\<rparr> else (c :: server_card)"
  have "game_cards (setFaceUp b False (setFaceUp a False g))
          = map (\<lambda>c0. ?f b (?f a c0)) (game_cards g)"
    by (simp add: setFaceUp_def)
  with assms(1) have "c \<in> (\<lambda>c0. ?f b (?f a c0)) ` set (game_cards g)"
    by (simp only: set_map)
  then obtain c0 where c: "c = ?f b (?f a c0)" ..
  show ?thesis
  proof (cases "card_id c0 = a")
    case True
    then show ?thesis by (simp add: c)
  next
    case False
    with assms(2) have "card_id c0 = b" by (simp add: c split: if_splits)
    then show ?thesis by (simp add: c False)
  qed
qed

text \<open>
  C3. When one card is flipped and the second flip is accepted and shows a different value,
  the game is in \<open>resolving\<close> with the flip-back scheduled; once the scheduled flip-back
  has run, both cards are on the board as before but face down again, no card id is left in
  \<open>flippedCardIds\<close>, the active player index has moved on by one modulo the number of
  players, and the game is back in \<open>playing\<close>. This holds from every game state,
  reachable or not.
\<close>

theorem C3_no_match_resolution:
  assumes first: "flippedCardIds g = [a]"
    and ok: "flip slot b g = Inr g'"
    and ca: "findCard a g = Some ca"
    and cb: "findCard b g = Some cb"
    and differ: "card_value ca \<noteq> card_value cb"
  shows "game_status g' = Resolving \<and> pendingFlipBack g' \<and> flippedCardIds g' = [a, b]
       \<and> findCard a (flipBack g') = Some (ca\<lparr>isFaceUp := False\<rparr>)
       \<and> findCard b (flipBack g') = Some (cb\<lparr>isFaceUp := False\<rparr>)
       \<and> (\<forall>c \<in> set (game_cards (flipBack g')). card_id c = a \<or> card_id c = b \<longrightarrow> \<not> isFaceUp c)
       \<and> map card_id (game_cards (flipBack g')) = map card_id (game_cards g)
       \<and> flippedCardIds (flipBack g') = []
       \<and> game_activePlayerIndex (flipBack g') =
            (game_activePlayerIndex g + 1) mod length (game_players g)
       \<and> game_status (flipBack g') = Playing"
proof -
  define g1 where "g1 = (setFaceUp b True g)\<lparr>flippedCardIds := [a, b], game_status := Resolving\<rparr>"
  have fa: "findCard a g1 = Some (if card_id ca = b then ca\<lparr>isFaceUp := True\<rparr> else ca)"
    using ca findCard_setFaceUp [of a b True g] by (simp add: g1_def findCard_def)
  have fb: "findCard b g1 = Some (if card_id cb = b then cb\<lparr>isFaceUp := True\<rparr> else cb)"
    using cb findCard_setFaceUp [of b b True g] by (simp add: g1_def findCard_def)
  have res: "resolvePair a b g1 = g1\<lparr>pendingFlipBack := True\<rparr>"
    using differ by (simp add: resolvePair_def fa fb)
  have "flip slot b g = Inl InvalidMoveError \<or> flip slot b g = Inr (resolvePair a b g1)"
    unfolding flip_def g1_def using first cb by (simp add: Let_def)
  with ok have "Inr g' = (Inr (resolvePair a b g1) :: engine_error + game)"
    by auto
  then have g': "g' = g1\<lparr>pendingFlipBack := True\<rparr>"
    unfolding res by simp
  have pend: "pendingFlipBack g'" and fl: "flippedCardIds g' = [a, b]"
    and st: "game_status g' = Resolving"
    and pl: "game_players g' = game_players g"
    and ap: "game_activePlayerIndex g' = game_activePlayerIndex g"
    by (simp_all add: g' g1_def)
  define h where "h = setFaceUp b False (setFaceUp a False g')"
  have fbk: "flipBack g' =
      advanceTurn (h\<lparr>flippedCardIds := [], game_status := Playing, pendingFlipBack := False\<rparr>)"
    unfolding flipBack_def h_def using pend fl by simp
  have cards: "game_cards (flipBack g') = game_cards h"
    unfolding fbk by (simp add: advanceTurn_def)
  have down: "\<forall>c \<in> set (game_cards (flipBack g')). card_id c = a \<or> card_id c = b \<longrightarrow> \<not> isFaceUp c"
    unfolding cards h_def using faceDown_after by blast
  have gc: "game_cards g' = game_cards (setFaceUp b True g)"
    by (simp add: g' g1_def)
  have ida: "card_id ca = a" and idb: "card_id cb = b"
    using ca cb by (simp_all add: findCard_id)
  have fa': "findCard a g' = Some (if a = b then ca\<lparr>isFaceUp := True\<rparr> else ca)"
    using findCard_cong [OF gc, of a] ca by (simp add: findCard_setFaceUp ida)
  have fb': "findCard b g' = Some (cb\<lparr>isFaceUp := True\<rparr>)"
    using findCard_cong [OF gc, of b] cb by (simp add: findCard_setFaceUp idb)
  have ha: "findCard a (flipBack g') = Some (ca\<lparr>isFaceUp := False\<rparr>)"
    using findCard_cong [OF cards, of a] by (simp add: h_def findCard_setFaceUp fa' ida)
  have hb: "findCard b (flipBack g') = Some (cb\<lparr>isFaceUp := False\<rparr>)"
    using findCard_cong [OF cards, of b] by (simp add: h_def findCard_setFaceUp fb' idb)
  have ids: "map card_id (game_cards (flipBack g')) = map card_id (game_cards g)"
    unfolding cards h_def gc setFaceUp_ids ..
  have hp: "game_players h = game_players g" "game_activePlayerIndex h = game_activePlayerIndex g"
    unfolding h_def using pl ap by simp_all
  have turn: "game_activePlayerIndex (flipBack g') = (game_activePlayerIndex g + 1) mod length (game_players g)"
    unfolding fbk by (simp add: advanceTurn_def hp)
  have after: "flippedCardIds (flipBack g') = []" "game_status (flipBack g') = Playing"
    unfolding fbk by (simp_all add: advanceTurn_def)
  show ?thesis
    using st pend fl ha hb down ids turn after by blast
qed

theorem C3_no_match_resolution_witness:
  "\<exists>g'. flip 0 1 mismatchGame = Inr g'
       \<and> game_status g' = Resolving
       \<and> findCard 0 (flipBack g')
            = Some \<lparr>card_id = 0, card_value = ''A'', isFaceUp = False, isMatched = False\<rparr>
       \<and> findCard 1 (flipBack g')
            = Some \<lparr>card_id = 1, card_value = ''B'', isFaceUp = False, isMatched = False\<rparr>
       \<and> flippedCardIds (flipBack g') = []
       \<and> game_activePlayerIndex (flipBack g') = 1
       \<and> game_status (flipBack g') = Playing"
proof -
  let ?ca = "\<lparr>card_id = 0, card_value = ''A'', isFaceUp = True, isMatched = False\<rparr> :: server_card"
  let ?cb = "\<lparr>card_id = 1, card_value = ''B'', isFaceUp = False, isMatched = False\<rparr> :: server_card"
  have first: "flippedCardIds mismatchGame = [0]"
    by (simp add: mismatchGame_def)
  have ca: "findCard 0 mismatchGame = Some ?ca"
    by (simp add: findCard_def mismatchGame_def)
  have cb: "findCard 1 mismatchGame = Some ?cb"
    by (simp add: findCard_def mismatchGame_def)
  have differ: "card_value ?ca \<noteq> card_value ?cb"
    by simp
  have "\<exists>g'. flip 0 1 mismatchGame = Inr g'"
    by (simp add: flip_def mismatchGame_def findCard_def Let_def)
  then obtain g' where ok: "flip 0 1 mismatchGame = Inr g'" ..
  from C3_no_match_resolution [OF first ok ca cb differ]
  show ?thesis using ok by (simp add: mismatchGame_def)
qed

section \<open>Board generation\<close>

lemma mset_swap_list: "i < length xs \<Longrightarrow> j < length xs \<Longrightarrow> mset (swap i j xs) = mset xs"
  unfolding swap_def by (simp add: mset_swap)

lemma length_swap [simp]: "length (swap i j xs) = length xs"
  by (simp add: swap_def)

lemma mset_fisherYates: "i < length xs \<Longrightarrow> mset (fisherYates rnd i xs) = mset xs"
proof (induction i arbitrary: xs)
  case 0
  show ?case by simp
next
  case (Suc i)
  have j: "rnd (Suc i) mod Suc (Suc i) < length xs"
    using Suc.prems by (meson Suc_lessI less_trans_Suc mod_less_divisor not_less_eq zero_less_Suc)
  have "mset (fisherYates rnd i (swap (Suc i) (rnd (Suc i) mod Suc (Suc i)) xs))
        = mset (swap (Suc i) (rnd (Suc i) mod Suc (Suc i)) xs)"
    using Suc.prems by (intro Suc.IH) simp
  also have "\<dots> = mset xs"
    using Suc.prems j by (rule mset_swap_list)
  finally show ?case by simp
qed

lemma mset_shuffle: "mset (shuffle rnd xs) = mset xs"
proof (cases xs)
  case Nil
  then show ?thesis by (simp add: shuffle_def)
next
  case (Cons x ys)
  then show ?thesis unfolding shuffle_def by (intro mset_fisherYates) simp
qed

lemma count_pairUp: "distinct symbols \<Longrightarrow> count_list (pairUp symbols) v = (if v \<in> set symbols then 2 else 0)"
  by (induction symbols) (auto simp: pairUp_def)

lemma length_pairUp: "length (pairUp symbols) = 2 * length symbols"
  by (induction symbols) (auto simp: pairUp_def)

lemma set_pairUp: "set (pairUp symbols) = set symbols"
  by (induction symbols) (auto simp: pairUp_def)

lemma map_id_makeCards: "map card_id (makeCards vs) = [0..<length vs]"
proof -
  have "map card_id (makeCards vs) = map fst (zip [0..<length vs] vs)"
    by (simp add: makeCards_def enumerate_eq_zip case_prod_unfold comp_def)
  then show ?thesis by simp
qed

lemma map_value_makeCards: "map card_value (makeCards vs) = vs"
proof -
  have "map card_value (makeCards vs) = map snd (zip [0..<length vs] vs)"
    by (simp add: makeCards_def enumerate_eq_zip case_prod_unfold comp_def)
  then show ?thesis by simp
qed

lemma faceDown_makeCards: "c \<in> set (makeCards vs) \<Longrightarrow> \<not> isFaceUp c \<and> \<not> isMatched c"
  by (auto simp: makeCards_def)

text \<open>
  C4. For every pair count that does not exceed the number of symbols of the symbol set,
  and every random source, generate returns a board: it has exactly twice the pair count
  of cards, every value on it occurs on exactly two cards, no two cards share an id, and
  every card is face down and unmatched.
\<close>

theorem C4_generate:
  assumes "pairCount \<le> card (set symbolSet)"
  shows "\<exists>cs. generate pairCount symbolSet rnd = Inr cs
           \<and> length cs = 2 * pairCount
           \<and> (\<forall>v \<in> set (map card_value cs). count_list (map card_value cs) v = 2)
           \<and> distinct (map card_id cs)
           \<and> (\<forall>c \<in> set cs. \<not> isFaceUp c \<and> \<not> isMatched c)"
proof -
  let ?syms = "take pairCount (remdups symbolSet)"
  let ?base = "makeCards (pairUp ?syms)"
  let ?cs = "shuffle rnd ?base"
  have le: "pairCount \<le> length (remdups symbolSet)"
    using assms by (simp add: length_remdups_card_conv)
  then have gen: "generate pairCount symbolSet rnd = Inr ?cs"
    by (simp add: generate_def)
  have d: "distinct ?syms" by simp
  have len_syms: "length ?syms = pairCount" using le by simp
  have m: "mset ?cs = mset ?base" by (rule mset_shuffle)
  have "length ?base = 2 * length ?syms"
    by (simp add: makeCards_def length_pairUp del: length_take)
  then have len: "length ?cs = 2 * pairCount"
    using mset_eq_length [OF m] len_syms by simp
  have mv: "mset (map card_value ?cs) = mset (pairUp ?syms)"
    using m by (metis map_value_makeCards mset_map)
  have cnt: "count_list (map card_value ?cs) v = 2" if "v \<in> set (map card_value ?cs)" for v
  proof -
    have "v \<in> set (pairUp ?syms)" using that mv by (metis set_mset_mset)
    then have "v \<in> set ?syms" by (simp add: set_pairUp)
    then have "count_list (pairUp ?syms) v = 2" using d by (simp add: count_pairUp)
    then show ?thesis using mv by (metis count_mset)
  qed
  have mi: "mset (map card_id ?cs) = mset [0..<length (pairUp ?syms)]"
    using m by (metis map_id_makeCards mset_map)
  have dist: "distinct (map card_id ?cs)"
    using mi by (metis distinct_upt mset_eq_imp_distinct_iff)
  have down: "\<not> isFaceUp c \<and> \<not> isMatched c" if "c \<in> set ?cs" for c
  proof -
    have "c \<in> set ?base" using that m by (metis set_mset_mset)
    then show ?thesis by (rule faceDown_makeCards)
  qed
  show ?thesis using gen len cnt dist down by blast
qed

theorem C4_generate_witness:
  "2 \<le> card (set [''A'', ''B'', ''C''])
   \<and> (\<exists>cs. generate 2 [''A'', ''B'', ''C''] (\<lambda>i. 7 * i + 3) = Inr cs
          \<and> length cs = 4
          \<and> distinct (map card_id cs)
          \<and> list_all (\<lambda>c. \<not> isFaceUp c \<and> \<not> isMatched c) cs)"
proof -
  have h: "2 \<le> card (set [''A'', ''B'', ''C''])"
    by simp
  from C4_generate [OF h, of "\<lambda>i. 7 * i + 3"]
  obtain cs where g: "generate 2 [''A'', ''B'', ''C''] (\<lambda>i. 7 * i + 3) = Inr cs"
    and l: "length cs = 2 * 2"
    and d: "distinct (map card_id cs)"
    and f: "\<forall>c \<in> set cs. \<not> isFaceUp c \<and> \<not> isMatched c"
    by blast
  have l4: "length cs = 4" using l by simp
  have fa: "list_all (\<lambda>c. \<not> isFaceUp c \<and> \<not> isMatched c) cs"
    using f by (simp add: list_all_iff)
  from g l4 d fa have "\<exists>cs. generate 2 [''A'', ''B'', ''C''] (\<lambda>i. 7 * i + 3) = Inr cs
          \<and> length cs = 4
          \<and> distinct (map card_id cs)
          \<and> list_all (\<lambda>c. \<not> isFaceUp c \<and> \<not> isMatched c) cs"
    by blast
  with h show ?thesis ..
qed

section \<open>The click handler of a card\<close>

text \<open>
  C5. A click on the element rendered for a card calls \<open>gameClient.flipCard\<close> with the
  card's id when the card is not matched, a game state is held and its status is
  \<open>playing\<close>; in every other case the click changes nothing and no request is sent. The
  grid holds one such element per card of the rendered state.
\<close>

theorem C5_click_guard:
  "click (onClick (renderCard c)) st =
     (if \<not> isMatched c \<and> (\<exists>g. currentGameState st = Some g \<and> status g = ''playing'')
      then st\<lparr>flipCalls := flipCalls st @ [card_id c]\<rparr>
      else st)
   \<and> cardGrid (renderCards gs st) = map_option (\<lambda>old. map renderCard (cards gs)) (cardGrid st)"
  by (auto simp: renderCard_def Let_def renderCards_def appendCards_map split: option.splits)


section \<open>Error display\<close>











section \<open>Cards held by the scene after an update\<close>

lemma removeStale_cards:
  "sceneCards (removeStale gs s) = filter (\<lambda>c. card_id c \<in> set (map card_id (cards gs))) (sceneCards s)"
proof (cases "filter (\<lambda>c. card_id c \<notin> set (map card_id (cards gs))) (sceneCards s) = []")
  case True
  then have "\<forall>c \<in> set (sceneCards s). card_id c \<in> set (map card_id (cards gs))"
    by (simp add: filter_empty_conv)
  then have "filter (\<lambda>c. card_id c \<in> set (map card_id (cards gs))) (sceneCards s) = sceneCards s"
    by (simp add: filter_id_conv)
  then show ?thesis using True by (simp add: removeStale_def Let_def)
next
  case False
  then show ?thesis by (simp add: removeStale_def Let_def)
qed

lemma removeStale_other [simp]:
  "fbxTemplateLoaded (removeStale gs s) = fbxTemplateLoaded s"
  "nextMesh (removeStale gs s) = nextMesh s"
  by (simp_all add: removeStale_def Let_def)

lemma set_fold_removeAll:
  "set (fold (\<lambda>c kids. removeAll (mesh c) kids) cs kids) = set kids - mesh ` set cs"
  by (induction cs arbitrary: kids) auto

lemma removeStale_children:
  "set (sceneChildren (removeStale gs s))
     = set (sceneChildren s)
       - mesh ` {c \<in> set (sceneCards s). card_id c \<notin> set (map card_id (cards gs))}"
proof (cases "filter (\<lambda>c. card_id c \<notin> set (map card_id (cards gs))) (sceneCards s) = []")
  case True
  then have e: "{c \<in> set (sceneCards s). card_id c \<notin> set (map card_id (cards gs))} = {}"
    by (auto simp: filter_empty_conv)
  have "sceneChildren (removeStale gs s) = sceneChildren s"
    using True by (simp add: removeStale_def Let_def)
  then show ?thesis unfolding e by simp
next
  case False
  then show ?thesis
    by (simp add: removeStale_def Let_def set_fold_removeAll)
qed

lemma createMissing_loaded [simp]: "fbxTemplateLoaded (createMissing cs s) = fbxTemplateLoaded s"
  by (induction cs arbitrary: s)
     (simp_all add: createCardInstance_def split: option.splits)

lemma createMissing_step_ids:
  "heldIds (case find (\<lambda>x. card_id x = card_id c) (sceneCards s) of
          Some existing \<Rightarrow> s
        | None \<Rightarrow>
            (case createCardInstance (card_id c) (card_value c) s of
               (None, s') \<Rightarrow> s'
             | (Some inst, s') \<Rightarrow> s'\<lparr>sceneCards := sceneCards s' @ [inst]\<rparr>))
   = (if fbxTemplateLoaded s then insert (card_id c) (heldIds s) else heldIds s)"
proof (cases "find (\<lambda>x. card_id x = card_id c) (sceneCards s)")
  case None
  then show ?thesis by (simp add: createCardInstance_def heldIds_def)
next
  case (Some x)
  then have "x \<in> set (sceneCards s)" "card_id x = card_id c"
    by (auto simp: find_Some_iff in_set_conv_nth)
  then have "card_id c \<in> card_id ` set (sceneCards s)"
    by (metis imageI)
  then have "card_id c \<in> heldIds s"
    by (simp add: heldIds_def)
  then show ?thesis using Some by (simp add: insert_absorb)
qed

lemma createMissing_ids:
  "heldIds (createMissing cs s)
     = (if fbxTemplateLoaded s then heldIds s \<union> set (map card_id cs) else heldIds s)"
proof (induction cs arbitrary: s)
  case Nil
  show ?case by simp
next
  case (Cons c cs)
  let ?s' = "case find (\<lambda>x. card_id x = card_id c) (sceneCards s) of
          Some existing \<Rightarrow> s
        | None \<Rightarrow>
            (case createCardInstance (card_id c) (card_value c) s of
               (None, s') \<Rightarrow> s'
             | (Some inst, s') \<Rightarrow> s'\<lparr>sceneCards := sceneCards s' @ [inst]\<rparr>)"
  have l: "fbxTemplateLoaded ?s' = fbxTemplateLoaded s"
    by (simp add: createCardInstance_def split: option.splits)
  have "heldIds (createMissing (c # cs) s) = heldIds (createMissing cs ?s')"
    by simp
  also have "\<dots> = (if fbxTemplateLoaded ?s' then heldIds ?s' \<union> set (map card_id cs) else heldIds ?s')"
    by (rule Cons.IH)
  also have "\<dots> = (if fbxTemplateLoaded s then heldIds s \<union> set (map card_id (c # cs)) else heldIds s)"
    unfolding l createMissing_step_ids by auto
  finally show ?case .
qed

lemma createMissing_children:
  "set (sceneChildren (createMissing cs s)) \<subseteq> set (sceneChildren s) \<union> {m. nextMesh s \<le> m}
   \<and> nextMesh s \<le> nextMesh (createMissing cs s)"
proof (induction cs arbitrary: s)
  case Nil
  show ?case by simp
next
  case (Cons c cs)
  let ?s' = "case find (\<lambda>x. card_id x = card_id c) (sceneCards s) of
          Some existing \<Rightarrow> s
        | None \<Rightarrow>
            (case createCardInstance (card_id c) (card_value c) s of
               (None, s') \<Rightarrow> s'
             | (Some inst, s') \<Rightarrow> s'\<lparr>sceneCards := sceneCards s' @ [inst]\<rparr>)"
  have a: "set (sceneChildren ?s') \<subseteq> set (sceneChildren s) \<union> {m. nextMesh s \<le> m}"
    and b: "nextMesh s \<le> nextMesh ?s'"
    by (auto simp: createCardInstance_def split: option.splits)
  from Cons.IH [of ?s'] have c: "set (sceneChildren (createMissing cs ?s')) \<subseteq> set (sceneChildren ?s') \<union> {m. nextMesh ?s' \<le> m}"
    and d: "nextMesh ?s' \<le> nextMesh (createMissing cs ?s')"
    by blast+
  have "set (sceneChildren (createMissing cs ?s')) \<subseteq> set (sceneChildren s) \<union> {m. nextMesh s \<le> m}"
    using a b c by fastforce
  moreover have "nextMesh s \<le> nextMesh (createMissing cs ?s')"
    using b d by simp
  ultimately show ?case by simp
qed

lemma removeExtra_ids:
  "heldIds (removeExtra gs xs s)
     = heldIds s - (set (map card_id xs) - set (map card_id (cards gs)))"
proof (induction xs arbitrary: s)
  case Nil
  show ?case by simp
next
  case (Cons c xs)
  let ?s' = "if find (\<lambda>g. card_id g = card_id c) (cards gs) = None
        then s\<lparr>sceneChildren := removeAll (mesh c) (sceneChildren s),
               sceneCards := filter (\<lambda>x. card_id x \<noteq> card_id c) (sceneCards s)\<rparr>
        else s"
  have n: "(find (\<lambda>g. card_id g = card_id c) (cards gs) = None) = (card_id c \<notin> set (map card_id (cards gs)))"
    by (auto simp: find_None_iff image_iff)
  have "heldIds ?s' = heldIds s - ({card_id c} - set (map card_id (cards gs)))"
    unfolding n by (auto simp: heldIds_def image_iff)
  moreover have "heldIds (removeExtra gs (c # xs) s) = heldIds (removeExtra gs xs ?s')"
    by simp
  ultimately show ?case
    unfolding Cons.IH [of ?s'] by auto
qed

lemma removeExtra_children: "set (sceneChildren (removeExtra gs xs s)) \<subseteq> set (sceneChildren s)"
proof (induction xs arbitrary: s)
  case Nil
  show ?case by simp
next
  case (Cons c xs)
  let ?s' = "if find (\<lambda>g. card_id g = card_id c) (cards gs) = None
        then s\<lparr>sceneChildren := removeAll (mesh c) (sceneChildren s),
               sceneCards := filter (\<lambda>x. card_id x \<noteq> card_id c) (sceneCards s)\<rparr>
        else s"
  have "set (sceneChildren ?s') \<subseteq> set (sceneChildren s)"
    by auto
  with Cons.IH [of ?s'] show ?case by auto
qed

lemma mutate_keeps:
  assumes "\<And>c. card_id (f c) = card_id c" and "\<And>c. mesh (f c) = mesh c"
  shows "map card_id (sceneCards (mutate h f s)) = map card_id (sceneCards s)"
    and "map mesh (sceneCards (mutate h f s)) = map mesh (sceneCards s)"
    and "sceneChildren (mutate h f s) = sceneChildren s"
    and "fbxTemplateLoaded (mutate h f s) = fbxTemplateLoaded s"
    and "nextMesh (mutate h f s) = nextMesh s"
  using assms by (simp_all add: mutate_def comp_def if_distrib cong: if_cong)

lemma sameHeld_refl [simp]: "sameHeld s s"
  by (simp add: sameHeld_def)

lemma sameHeld_trans: "sameHeld s s' \<Longrightarrow> sameHeld s' s'' \<Longrightarrow> sameHeld s s''"
  by (simp add: sameHeld_def)

lemma sameHeld_mutate:
  "sameHeld s (mutate h (\<lambda>c. c\<lparr>isMatched := True\<rparr>) s)"
  "sameHeld s (mutate h (\<lambda>c. c\<lparr>card_value := v\<rparr>) s)"
  "sameHeld s (mutate h (\<lambda>c. c\<lparr>isFaceUp := up\<rparr>) s)"
  by (simp_all add: sameHeld_def mutate_keeps)

lemma syncFrom_sameHeld: "sameHeld s (snd (syncFrom cs s))"
proof (induction cs arbitrary: s)
  case Nil
  show ?case by simp
next
  case (Cons g rest)
  show ?case
  proof (cases "find (\<lambda>c. card_id c = card_id g) (sceneCards s)")
    case None
    then show ?thesis using Cons.IH [of s] by simp
  next
    case (Some local)
    let ?s1 = "if isMatched g \<and> \<not> isMatched local
               then mutate (mesh local) (\<lambda>c. c\<lparr>isMatched := True\<rparr>) s else s"
    have s1: "sameHeld s ?s1"
      by (simp add: sameHeld_mutate)
    show ?thesis
    proof (cases "isFaceUp g \<noteq> isFaceUp local")
      case True
      have "sameHeld ?s1 (mutate (mesh local) (\<lambda>c. c\<lparr>card_value := card_value g\<rparr>) ?s1)"
        by (rule sameHeld_mutate)
      with s1 have "sameHeld s (mutate (mesh local) (\<lambda>c. c\<lparr>card_value := card_value g\<rparr>) ?s1)"
        by (rule sameHeld_trans)
      then show ?thesis using Some True by (simp add: Let_def)
    next
      case False
      have "sameHeld s (snd (syncFrom rest ?s1))"
        using s1 Cons.IH [of ?s1] by (rule sameHeld_trans)
      then show ?thesis using Some False by (simp add: Let_def)
    qed
  qed
qed

lemma syncFrom_task: "\<forall>gs. fst (syncFrom cs s) \<noteq> AwaitTextures gs"
proof (induction cs arbitrary: s)
  case Nil
  show ?case by simp
next
  case (Cons g rest)
  show ?case
    by (cases "find (\<lambda>c. card_id c = card_id g) (sceneCards s)")
       (simp_all add: Cons.IH Let_def)
qed

lemma resume_flip_sameHeld: "sameHeld s (snd (resume (AwaitFlip h up rest) s))"
proof -
  have "sameHeld s (mutate h (\<lambda>c. c\<lparr>isFaceUp := up\<rparr>) s)"
    by (rule sameHeld_mutate)
  moreover have "sameHeld (mutate h (\<lambda>c. c\<lparr>isFaceUp := up\<rparr>) s)
                   (snd (syncFrom rest (mutate h (\<lambda>c. c\<lparr>isFaceUp := up\<rparr>) s)))"
    by (rule syncFrom_sameHeld)
  ultimately show ?thesis
    by (simp add: sameHeld_trans)
qed

lemma resume_task: "(\<forall>gs. t \<noteq> AwaitTextures gs) \<Longrightarrow> \<forall>gs. fst (resume t s) \<noteq> AwaitTextures gs"
  by (cases t) (simp_all add: syncFrom_task)

lemma runToEnd_sameHeld:
  "(\<forall>gs. t \<noteq> AwaitTextures gs) \<Longrightarrow> sameHeld s (runToEnd t s)"
proof (induction t s rule: runToEnd.induct)
  case (1 t s)
  show ?case
  proof (cases "t = Finished")
    case True
    then show ?thesis by (simp add: runToEnd.simps)
  next
    case False
    then obtain h up rest where t: "t = AwaitFlip h up rest"
      using "1.prems" by (cases t) auto
    have a: "sameHeld s (snd (resume t s))"
      unfolding t by (rule resume_flip_sameHeld)
    have b: "sameHeld (snd (resume t s)) (runToEnd (fst (resume t s)) (snd (resume t s)))"
      using False "1.prems" by (intro "1.IH" resume_task) 
    have "runToEnd t s = runToEnd (fst (resume t s)) (snd (resume t s))"
      using False by (subst runToEnd.simps) simp
    then show ?thesis
      using a b by (simp add: sameHeld_trans)
  qed
qed

lemma heldIds_sameHeld: "sameHeld s s' \<Longrightarrow> heldIds s' = heldIds s"
  unfolding heldIds_def sameHeld_def by (metis list.set_map)

lemma resume_textures_ids:
  "heldIds (snd (resume (AwaitTextures gs) s))
     = (if fbxTemplateLoaded s then set (map card_id (cards gs))
        else heldIds s \<inter> set (map card_id (cards gs)))"
proof -
  let ?N = "set (map card_id (cards gs))"
  let ?s1 = "removeStale gs s"
  let ?s2 = "createMissing (cards gs) ?s1"
  let ?s3 = "removeExtra gs (sceneCards ?s2) ?s2"
  have i1: "heldIds ?s1 = heldIds s \<inter> ?N"
    unfolding heldIds_def removeStale_cards by auto
  have i2: "heldIds ?s2 = (if fbxTemplateLoaded s then ?N else heldIds s \<inter> ?N)"
    unfolding createMissing_ids i1 by auto
  have "heldIds ?s3 = heldIds ?s2 - (heldIds ?s2 - ?N)"
    unfolding removeExtra_ids by (simp add: heldIds_def)
  then have i3: "heldIds ?s3 = (if fbxTemplateLoaded s then ?N else heldIds s \<inter> ?N)"
    unfolding i2 by auto
  have "heldIds (snd (syncFrom (cards gs) ?s3)) = heldIds ?s3"
    using syncFrom_sameHeld by (rule heldIds_sameHeld)
  then show ?thesis
    using i3 by (simp add: Let_def)
qed

lemma resume_textures_children:
  assumes "c \<in> set (sceneCards s)" and "card_id c \<notin> set (map card_id (cards gs))"
    and "mesh c < nextMesh s"
  shows "mesh c \<notin> set (sceneChildren (snd (resume (AwaitTextures gs) s)))"
proof -
  let ?s1 = "removeStale gs s"
  let ?s2 = "createMissing (cards gs) ?s1"
  let ?s3 = "removeExtra gs (sceneCards ?s2) ?s2"
  have "mesh c \<in> mesh ` {c \<in> set (sceneCards s). card_id c \<notin> set (map card_id (cards gs))}"
    using assms(1,2) by blast
  then have m1: "mesh c \<notin> set (sceneChildren ?s1)"
    unfolding removeStale_children by blast
  have "set (sceneChildren ?s2) \<subseteq> set (sceneChildren ?s1) \<union> {m. nextMesh ?s1 \<le> m}"
    using createMissing_children [of "cards gs" ?s1] by blast
  then have m2: "mesh c \<notin> set (sceneChildren ?s2)"
    using m1 assms(3) by auto
  have m3: "mesh c \<notin> set (sceneChildren ?s3)"
    using m2 removeExtra_children [of gs "sceneCards ?s2" ?s2] by blast
  have "sceneChildren (snd (syncFrom (cards gs) ?s3)) = sceneChildren ?s3"
    using syncFrom_sameHeld [of ?s3 "cards gs"] by (simp add: sameHeld_def)
  then show ?thesis
    using m3 by (simp add: Let_def)
qed

lemma update_after_textures:
  "sameHeld (snd (resume (AwaitTextures gs) s)) (updateFromGameState (Some gs) s)"
proof -
  have "runToEnd (AwaitTextures gs) s
          = runToEnd (fst (resume (AwaitTextures gs) s)) (snd (resume (AwaitTextures gs) s))"
    by (subst runToEnd.simps) simp
  moreover have "sameHeld (snd (resume (AwaitTextures gs) s))
                   (runToEnd (fst (resume (AwaitTextures gs) s)) (snd (resume (AwaitTextures gs) s)))"
  proof (rule runToEnd_sameHeld)
    show "\<forall>gs'. fst (resume (AwaitTextures gs) s) \<noteq> AwaitTextures gs'"
      by (simp add: syncFrom_task Let_def)
  qed
  ultimately show ?thesis
    by (simp add: updateFromGameState_def)
qed

lemma update_ids:
  "heldIds (updateFromGameState (Some gs) s)
     = (if fbxTemplateLoaded s then set (map card_id (cards gs))
        else heldIds s \<inter> set (map card_id (cards gs)))"
  using heldIds_sameHeld [OF update_after_textures [of gs s]] resume_textures_ids [of gs s]
  by simp

lemma update_children:
  assumes "c \<in> set (sceneCards s)" and "card_id c \<notin> set (map card_id (cards gs))"
    and "mesh c < nextMesh s"
  shows "mesh c \<notin> set (sceneChildren (updateFromGameState (Some gs) s))"
proof -
  have "sceneChildren (updateFromGameState (Some gs) s)
          = sceneChildren (snd (resume (AwaitTextures gs) s))"
    using update_after_textures [of gs s] by (simp add: sameHeld_def)
  then show ?thesis
    using resume_textures_children [OF assms] by simp
qed

lemmas scene_eval = sceneWithoutTemplate_def snapshotA_def redactedSnapshot_def mismatchGame_def
  redact_def otherBoard_def oldBoard_def reusedBoard_def removeStale_def createCardInstance_def
  mutate_def Let_def

text \<open>
  Every state the module can get into, whatever is called and resumed in whatever order,
  holds no card without the card model, only meshes with handles that were issued, and no
  mesh twice.
\<close>

lemma sceneOk_sameHeld: "sameHeld s s' \<Longrightarrow> sceneOk s \<Longrightarrow> sceneOk s'"
proof -
  assume h: "sameHeld s s'" and ok: "sceneOk s"
  have m: "map mesh (sceneCards s') = map mesh (sceneCards s)"
    and l: "fbxTemplateLoaded s' = fbxTemplateLoaded s" and n: "nextMesh s' = nextMesh s"
    using h by (simp_all add: sameHeld_def)
  have e: "(sceneCards s' = []) = (sceneCards s = [])"
    using m by (metis map_is_Nil_conv)
  have "mesh ` set (sceneCards s') = mesh ` set (sceneCards s)"
    using m by (metis list.set_map)
  then have "\<forall>c \<in> set (sceneCards s'). mesh c < nextMesh s'"
    using ok unfolding sceneOk_def n by (metis (no_types, lifting) imageE imageI)
  moreover have "distinct (map mesh (sceneCards s'))"
    using ok unfolding sceneOk_def m by simp
  ultimately show "sceneOk s'"
    using ok e l by (simp add: sceneOk_def)
qed

lemma sceneOk_removeStale: "sceneOk s \<Longrightarrow> sceneOk (removeStale gs s)"
  by (simp add: sceneOk_def removeStale_cards distinct_map_filter)

lemma sceneOk_createMissing: "sceneOk s \<Longrightarrow> sceneOk (createMissing cs s)"
proof (induction cs arbitrary: s)
  case Nil
  then show ?case by simp
next
  case (Cons c cs)
  let ?s' = "case find (\<lambda>x. card_id x = card_id c) (sceneCards s) of
          Some existing \<Rightarrow> s
        | None \<Rightarrow>
            (case createCardInstance (card_id c) (card_value c) s of
               (None, s') \<Rightarrow> s'
             | (Some inst, s') \<Rightarrow> s'\<lparr>sceneCards := sceneCards s' @ [inst]\<rparr>)"
  have "sceneOk ?s'"
    using Cons.prems
    by (cases "find (\<lambda>x. card_id x = card_id c) (sceneCards s)")
       (auto simp: sceneOk_def createCardInstance_def less_Suc_eq)
  then have "sceneOk (createMissing cs ?s')"
    by (rule Cons.IH)
  then show ?case by simp
qed

lemma sceneOk_removeExtra: "sceneOk s \<Longrightarrow> sceneOk (removeExtra gs xs s)"
proof (induction xs arbitrary: s)
  case Nil
  then show ?case by simp
next
  case (Cons c xs)
  let ?s' = "if find (\<lambda>g. card_id g = card_id c) (cards gs) = None
        then s\<lparr>sceneChildren := removeAll (mesh c) (sceneChildren s),
               sceneCards := filter (\<lambda>x. card_id x \<noteq> card_id c) (sceneCards s)\<rparr>
        else s"
  have "sceneOk ?s'"
    using Cons.prems by (simp add: sceneOk_def distinct_map_filter)
  then have "sceneOk (removeExtra gs xs ?s')"
    by (rule Cons.IH)
  then show ?case by simp
qed

lemma sceneOk_resume: "sceneOk s \<Longrightarrow> sceneOk (snd (resume t s))"
proof (cases t)
  case (AwaitTextures gs)
  assume ok: "sceneOk s"
  let ?s2 = "createMissing (cards gs) (removeStale gs s)"
  let ?s3 = "removeExtra gs (sceneCards ?s2) ?s2"
  have "sceneOk ?s3"
    using ok by (intro sceneOk_removeExtra sceneOk_createMissing sceneOk_removeStale)
  then have "sceneOk (snd (syncFrom (cards gs) ?s3))"
    using syncFrom_sameHeld sceneOk_sameHeld by blast
  then show ?thesis
    using AwaitTextures by (simp add: Let_def)
next
  case (AwaitFlip h up rest)
  assume "sceneOk s"
  then show ?thesis
    unfolding AwaitFlip using resume_flip_sameHeld sceneOk_sameHeld by blast
next
  case Finished
  assume "sceneOk s"
  then show ?thesis using Finished by simp
qed

lemma sceneOk_runScene: "sceneOk (snd p) \<Longrightarrow> sceneOk (snd (runScene evs p))"
proof (induction evs arbitrary: p)
  case Nil
  then show ?case by simp
next
  case (Cons e evs)
  obtain ts s where p: "p = (ts, s)"
    by (cases p)
  have "sceneOk (snd (sceneStep e p))"
  proof (cases e)
    case TemplateLoaded
    then show ?thesis using Cons.prems by (simp add: p sceneOk_def)
  next
    case (Call gso)
    then show ?thesis using Cons.prems by (simp add: p)
  next
    case (Resume i)
    then show ?thesis using Cons.prems by (simp add: p sceneOk_resume)
  qed
  then have "sceneOk (snd (runScene evs (sceneStep e p)))"
    by (rule Cons.IH)
  then show ?case by simp
qed

lemma sceneOk_reachable: "sceneOk (snd (runScene evs ([], sceneWithoutTemplate)))"
  by (rule sceneOk_runScene) (simp add: sceneOk_def sceneWithoutTemplate_def)


text \<open>\<open>sceneOfOldGame\<close> is the scene after the card model was loaded and \<open>oldBoard\<close> shown.\<close>

lemma old_reached:
  "snd (runScene [TemplateLoaded, Call (Some oldBoard), Resume 0, Resume 0] ([], sceneWithoutTemplate))
     = sceneOfOldGame"
  by (simp add: scene_eval sceneOfOldGame_def)

text \<open>
  A board that uses the ids of the previous one again gets the card objects of the previous
  board: their meshes stay and a matched flag that was set stays set.
\<close>

lemma reused_eval:
  "updateFromGameState (Some reusedBoard) sceneOfOldGame
     = sceneOfOldGame\<lparr>sceneCards :=
         [\<lparr>card_id = 0, card_value = JNull, isFaceUp = False, isMatched = False, mesh = 0\<rparr>,
          \<lparr>card_id = 9, card_value = JNull, isFaceUp = False, isMatched = True, mesh = 1\<rparr>]\<rparr>"
  by (simp add: updateFromGameState_def runToEnd.simps scene_eval sceneOfOldGame_def)

text \<open>The run of the two overlapping calls, and the state before its last step.\<close>

lemma overlap_eval:
  "runScene overlappingCalls ([], sceneWithoutTemplate)
     = ([Finished, Finished],
        \<lparr>sceneCards =
           [\<lparr>card_id = 100, card_value = JNull, isFaceUp = False, isMatched = False, mesh = 4\<rparr>,
            \<lparr>card_id = 101, card_value = JNull, isFaceUp = False, isMatched = False, mesh = 5\<rparr>],
         sceneChildren = [4, 5], fbxTemplateLoaded = True, nextMesh = 6\<rparr>)"
  unfolding overlappingCalls_def by (simp add: scene_eval)

lemma overlap_before:
  "fst (runScene (butlast overlappingCalls) ([], sceneWithoutTemplate)) ! 0 \<noteq> Finished"
  unfolding overlappingCalls_def by (simp add: scene_eval)

text \<open>
  Two inputs at which the ids held after a call differ from the ids of its game state.
  Without the card model no card object can be created: on the scene as it starts, an
  update with a state of four cards leaves the scene empty. And with the model loaded: the
  call for the four cards waits for a flip animation, a call for another board runs in
  between, and when the first call completes the scene holds the ids of the other board.
\<close>

theorem C7_scene_counterexample:
  "set (map card_id (sceneCards (updateFromGameState (Some snapshotA) sceneWithoutTemplate))) = {}
   \<and> set (map card_id (cards snapshotA)) = {0, 1, 2, 3}
   \<and> fst (runScene (butlast overlappingCalls) ([], sceneWithoutTemplate)) ! 0 \<noteq> Finished
   \<and> fst (runScene overlappingCalls ([], sceneWithoutTemplate)) = [Finished, Finished]
   \<and> map card_id (sceneCards (snd (runScene overlappingCalls ([], sceneWithoutTemplate))))
       = [100, 101]"
proof -
  have "heldIds (updateFromGameState (Some snapshotA) sceneWithoutTemplate)
          = heldIds sceneWithoutTemplate \<inter> set (map card_id (cards snapshotA))"
    using update_ids [of snapshotA sceneWithoutTemplate] by (simp add: sceneWithoutTemplate_def)
  then have a: "set (map card_id (sceneCards (updateFromGameState (Some snapshotA) sceneWithoutTemplate))) = {}"
    unfolding heldIds_def by (simp add: sceneWithoutTemplate_def)
  have b: "set (map card_id (cards snapshotA)) = {0, 1, 2, 3}"
    by (auto simp: snapshotA_def redactedSnapshot_def mismatchGame_def redact_def)
  show ?thesis
    unfolding a b overlap_eval using overlap_before by simp
qed

text \<open>
  C7, as amended. Take a call of updateFromGameState on a game state that has cards, resumed
  until it has finished with no other update resumed in between. After it, every card the
  scene holds has an id of the state's cards: a card object of a previous board whose id is
  absent from the new state is dropped from the held cards and its mesh is removed from the
  scene (the mesh has a handle issued earlier, as every mesh the module made has). When the
  card model is loaded, the ids held are exactly the ids of the state's cards; when it is
  not, no card is created and the ids held are those of the old cards that the new state
  still has, which in a scene the module can get into are none. A call without cards
  changes nothing. The part of a call that follows a flip animation never changes which
  cards are held or which meshes are in the scene.
\<close>

theorem C7_scene_ids:
  "set (map card_id (sceneCards (updateFromGameState (Some gs) s))) \<subseteq> set (map card_id (cards gs))
   \<and> (fbxTemplateLoaded s \<longrightarrow>
        set (map card_id (sceneCards (updateFromGameState (Some gs) s))) = set (map card_id (cards gs)))
   \<and> (\<not> fbxTemplateLoaded s \<longrightarrow>
        set (map card_id (sceneCards (updateFromGameState (Some gs) s)))
          = set (map card_id (sceneCards s)) \<inter> set (map card_id (cards gs)))
   \<and> (\<forall>c \<in> set (sceneCards s).
        card_id c \<notin> set (map card_id (cards gs)) \<and> mesh c < nextMesh s \<longrightarrow>
          card_id c \<notin> set (map card_id (sceneCards (updateFromGameState (Some gs) s)))
        \<and> mesh c \<notin> set (sceneChildren (updateFromGameState (Some gs) s)))
   \<and> (sceneOk s \<and> \<not> fbxTemplateLoaded s \<longrightarrow> sceneCards (updateFromGameState (Some gs) s) = [])
   \<and> updateFromGameState None s = s
   \<and> map card_id (sceneCards (snd (resume (AwaitFlip h up rest) s))) = map card_id (sceneCards s)
   \<and> sceneChildren (snd (resume (AwaitFlip h up rest) s)) = sceneChildren s"
proof -
  have ids: "set (map card_id (sceneCards (updateFromGameState (Some gs) s)))
     = (if fbxTemplateLoaded s then set (map card_id (cards gs))
        else set (map card_id (sceneCards s)) \<inter> set (map card_id (cards gs)))"
    using update_ids [of gs s] unfolding heldIds_def .
  have none: "updateFromGameState None s = s"
    by (simp add: updateFromGameState_def runToEnd.simps)
  have flip: "map card_id (sceneCards (snd (resume (AwaitFlip h up rest) s))) = map card_id (sceneCards s)"
    "sceneChildren (snd (resume (AwaitFlip h up rest) s)) = sceneChildren s"
    using resume_flip_sameHeld [of s h up rest] by (simp_all add: sameHeld_def)
  have "set (map card_id (sceneCards (updateFromGameState (Some gs) s))) \<subseteq> set (map card_id (cards gs))
   \<and> (fbxTemplateLoaded s \<longrightarrow>
        set (map card_id (sceneCards (updateFromGameState (Some gs) s))) = set (map card_id (cards gs)))
   \<and> (\<not> fbxTemplateLoaded s \<longrightarrow>
        set (map card_id (sceneCards (updateFromGameState (Some gs) s)))
          = set (map card_id (sceneCards s)) \<inter> set (map card_id (cards gs)))
   \<and> (\<forall>c \<in> set (sceneCards s).
        card_id c \<notin> set (map card_id (cards gs)) \<and> mesh c < nextMesh s \<longrightarrow>
          card_id c \<notin> set (map card_id (sceneCards (updateFromGameState (Some gs) s)))
        \<and> mesh c \<notin> set (sceneChildren (updateFromGameState (Some gs) s)))"
    using ids update_children [of _ s gs]
    by (cases "fbxTemplateLoaded s") auto
  moreover have "sceneCards (updateFromGameState (Some gs) s) = []"
    if "sceneOk s" "\<not> fbxTemplateLoaded s"
  proof -
    have "sceneCards s = []"
      using that by (simp add: sceneOk_def)
    then show ?thesis
      using ids that(2) by simp
  qed
  ultimately show ?thesis
    using none flip by simp
qed

theorem C7_scene_ids_witness:
  "fbxTemplateLoaded sceneOfOldGame
   \<and> set (map card_id (sceneCards (updateFromGameState (Some snapshotA) sceneOfOldGame))) = {0, 1, 2, 3}
   \<and> 9 \<in> set (map card_id (sceneCards sceneOfOldGame))
   \<and> 1 \<in> set (sceneChildren sceneOfOldGame)
   \<and> 1 \<notin> set (sceneChildren (updateFromGameState (Some snapshotA) sceneOfOldGame))
   \<and> \<not> fbxTemplateLoaded sceneWithoutTemplate
   \<and> sceneOk sceneWithoutTemplate
   \<and> set (map card_id (sceneCards (updateFromGameState (Some snapshotA) sceneWithoutTemplate))) = {}
   \<and> sceneCards (updateFromGameState (Some snapshotA) sceneWithoutTemplate) = []"
proof -
  let ?old = "\<lparr>card_id = 9, card_value = JStr ''H'', isFaceUp = True, isMatched = True, mesh = 1\<rparr>"
  have n: "set (map card_id (cards snapshotA)) = {0, 1, 2, 3}"
    by (auto simp: snapshotA_def redactedSnapshot_def mismatchGame_def redact_def)
  have l: "fbxTemplateLoaded sceneOfOldGame"
    by (simp add: sceneOfOldGame_def)
  have o: "?old \<in> set (sceneCards sceneOfOldGame)"
    by (simp add: sceneOfOldGame_def)
  have a: "card_id ?old \<notin> set (map card_id (cards snapshotA)) \<and> mesh ?old < nextMesh sceneOfOldGame"
    unfolding n by (simp add: sceneOfOldGame_def)
  have h: "set (map card_id (sceneCards sceneOfOldGame)) = {0, 9}"
    "set (sceneChildren sceneOfOldGame) = {0, 1}"
    by (auto simp: sceneOfOldGame_def)
  note t1 = C7_scene_ids [of snapshotA sceneOfOldGame 0 True "[]"]
  note t2 = C7_scene_ids [of snapshotA sceneWithoutTemplate 0 True "[]"]
  from t1 l have ids: "set (map card_id (sceneCards (updateFromGameState (Some snapshotA) sceneOfOldGame)))
      = {0, 1, 2, 3}"
    unfolding n by blast
  from t1 o a have gone: "mesh ?old \<notin> set (sceneChildren (updateFromGameState (Some snapshotA) sceneOfOldGame))"
    by blast
  have nl: "\<not> fbxTemplateLoaded sceneWithoutTemplate"
    and e: "set (map card_id (sceneCards sceneWithoutTemplate)) = {}"
    by (simp_all add: sceneWithoutTemplate_def)
  from t2 nl have "set (map card_id (sceneCards (updateFromGameState (Some snapshotA) sceneWithoutTemplate)))
      = set (map card_id (sceneCards sceneWithoutTemplate)) \<inter> set (map card_id (cards snapshotA))"
    by blast
  then have ids': "set (map card_id (sceneCards (updateFromGameState (Some snapshotA) sceneWithoutTemplate))) = {}"
    unfolding e by simp
  have ok: "sceneOk sceneWithoutTemplate"
    by (simp add: sceneOk_def sceneWithoutTemplate_def)
  from t2 nl ok have none: "sceneCards (updateFromGameState (Some snapshotA) sceneWithoutTemplate) = []"
    by blast
  show ?thesis
    using l ids h gone nl ok ids' none by simp
qed

section \<open>The win popup\<close>

lemma showWinPopup_guard:
  "hasShownWinPopupForGameId st = Some (gameId g) \<Longrightarrow> showWinPopup t g st = (None, st)"
  by (simp add: showWinPopup_def)

lemma showWinPopup_shown:
  "hasShownWinPopupForGameId (snd (showWinPopup t g st)) = Some (gameId g)"
  by (simp add: showWinPopup_def Let_def split: option.splits)

lemma showWinPopup_overlays:
  "overlays (snd (showWinPopup t g st)) = overlays st
   \<or> (\<exists>ov. overlays (snd (showWinPopup t g st)) = overlays st @ [ov])"
  by (simp add: showWinPopup_def Let_def split: option.splits)

lemma winnerText_Some: "winners r \<noteq> [] \<Longrightarrow> \<exists>w. winnerText b r = Some w"
  by (cases "winners r") (simp_all add: winnerText_def)

lemma showWinPopup_creates:
  assumes "hasShownWinPopupForGameId st \<noteq> Some (gameId g)" and "players g \<noteq> []"
  shows "\<exists>ov. overlays (snd (showWinPopup t g st)) = overlays st @ [ov]"
proof -
  obtain p ps where ps: "players g = p # ps"
    using assms(2) by (cases "players g") auto
  have "winners (getWinners g) \<noteq> []"
  proof -
    have "Math_max (map score (players g)) \<noteq> NegInfinity"
      by (simp add: ps split: number.splits)
    then obtain m where m: "Math_max (map score (players g)) = Finite m"
      by (cases "Math_max (map score (players g))") auto
    have "\<exists>q \<in> set qs. Math_max (map score qs) = Finite (score q)" if "qs \<noteq> []" for qs :: "player list"
      using that
    proof (induction qs)
      case Nil
      then show ?case by simp
    next
      case (Cons q qs)
      show ?case
      proof (cases "qs = []")
        case True
        then show ?thesis by simp
      next
        case False
        with Cons.IH obtain q' where "q' \<in> set qs" "Math_max (map score qs) = Finite (score q')"
          by blast
        then show ?thesis by (cases "score q \<le> score q'") (auto simp: max_def)
      qed
    qed
    with assms(2) obtain q where "q \<in> set (players g)" "Math_max (map score (players g)) = Finite (score q)"
      by blast
    then show ?thesis
      by (auto simp: getWinners_def Let_def filter_empty_conv)
  qed
  then obtain wtext where
    "winnerText (1 < length (winners (getWinners g))) (getWinners g) = Some wtext"
    using winnerText_Some by blast
  then show ?thesis
    using assms(1) by (simp add: showWinPopup_def Let_def)
qed

lemma created_step:
  "count_list (if overlays (snd (showWinPopup t g st)) = overlays st then [] else [gameId g]) i
     \<le> count_list [gameId g] i"
  by simp

lemma remdups_adj_hd: "remdups_adj (x # xs) = x # tl (remdups_adj (x # xs))"
  by (cases xs) simp_all

lemma created_after_shown:
  "hasShownWinPopupForGameId st = Some h \<Longrightarrow>
   count_list (overlaysCreatedFor t gs st) i \<le> count_list (tl (remdups_adj (h # map gameId gs))) i"
proof (induction gs arbitrary: st h)
  case Nil
  show ?case by simp
next
  case (Cons g gs)
  let ?st' = "snd (showWinPopup t g st)"
  show ?case
  proof (cases "h = gameId g")
    case True
    then have same: "showWinPopup t g st = (None, st)"
      using Cons.prems by (simp add: showWinPopup_guard)
    have "count_list (overlaysCreatedFor t gs st) i \<le> count_list (tl (remdups_adj (h # map gameId gs))) i"
      using Cons.prems by (rule Cons.IH)
    then show ?thesis using True same by simp
  next
    case False
    have sh: "hasShownWinPopupForGameId ?st' = Some (gameId g)"
      by (rule showWinPopup_shown)
    have ih: "count_list (overlaysCreatedFor t gs ?st') i
                \<le> count_list (tl (remdups_adj (gameId g # map gameId gs))) i"
      using sh by (rule Cons.IH)
    define ys where "ys = tl (remdups_adj (gameId g # map gameId gs))"
    have eq: "remdups_adj (gameId g # map gameId gs) = gameId g # ys"
      unfolding ys_def by (rule remdups_adj_hd)
    have r: "tl (remdups_adj (h # map gameId (g # gs))) = gameId g # ys"
      using False eq by simp
    have c: "count_list (overlaysCreatedFor t (g # gs) st) i
            = count_list (if overlays ?st' = overlays st then [] else [gameId g]) i
              + count_list (overlaysCreatedFor t gs ?st') i"
      by (simp only: overlaysCreatedFor.simps Let_def count_list_append)
    have "count_list (if overlays ?st' = overlays st then [] else [gameId g]) i
              + count_list (overlaysCreatedFor t gs ?st') i
          \<le> count_list [gameId g] i + count_list ys i"
      using ih created_step [of t g st i] unfolding ys_def by (rule_tac add_mono)
    also have "\<dots> = count_list (gameId g # ys) i"
      by simp
    finally show ?thesis
      unfolding r c .
  qed
qed

lemma distinct_count_list_le: "distinct xs \<Longrightarrow> count_list xs i \<le> 1"
  by (induction xs) auto

lemma created_le_runs:
  "count_list (overlaysCreatedFor t gs st) i \<le> count_list (remdups_adj (map gameId gs)) i"
proof (cases gs)
  case Nil
  then show ?thesis by simp
next
  case (Cons g gs')
  let ?st' = "snd (showWinPopup t g st)"
  have sh: "hasShownWinPopupForGameId ?st' = Some (gameId g)"
    by (rule showWinPopup_shown)
  define ys where "ys = tl (remdups_adj (gameId g # map gameId gs'))"
  have eq: "remdups_adj (map gameId gs) = gameId g # ys"
    unfolding ys_def Cons list.map by (rule remdups_adj_hd)
  have c: "count_list (overlaysCreatedFor t gs st) i
          = count_list (if overlays ?st' = overlays st then [] else [gameId g]) i
            + count_list (overlaysCreatedFor t gs' ?st') i"
    unfolding Cons by (simp only: overlaysCreatedFor.simps Let_def count_list_append)
  have "count_list (if overlays ?st' = overlays st then [] else [gameId g]) i
            + count_list (overlaysCreatedFor t gs' ?st') i
        \<le> count_list [gameId g] i + count_list ys i"
    using created_after_shown [OF sh, of t gs' i] created_step [of t g st i]
    unfolding ys_def by (rule_tac add_mono)
  also have "\<dots> = count_list (gameId g # ys) i"
    by simp
  finally show ?thesis
    unfolding eq c .
qed

text \<open>
  The guard remembers one game id only, that of the latest popup. Three calls for the games
  \<open>g1\<close>, \<open>g2\<close>, \<open>g1\<close> on a fresh page append three overlays, two of them for \<open>g1\<close>.
\<close>

theorem C9_win_popup_counterexample:
  "overlaysCreatedFor None [tieGame, otherGame, tieGame] examplePage = [''g1'', ''g2'', ''g1'']
   \<and> count_list (overlaysCreatedFor None [tieGame, otherGame, tieGame] examplePage) ''g1'' = 2
   \<and> length (overlays (showAll None [tieGame, otherGame, tieGame] examplePage)) = 3"
proof -
  let ?s1 = "snd (showWinPopup None tieGame examplePage)"
  let ?s2 = "snd (showWinPopup None otherGame ?s1)"
  let ?s3 = "snd (showWinPopup None tieGame ?s2)"
  have ids: "gameId tieGame = ''g1''" "gameId otherGame = ''g2''"
    and pl: "players tieGame \<noteq> []" "players otherGame \<noteq> []"
    by (simp_all add: tieGame_def otherGame_def)
  have h0: "hasShownWinPopupForGameId examplePage \<noteq> Some (gameId tieGame)"
    by (simp add: examplePage_def)
  have h1: "hasShownWinPopupForGameId ?s1 \<noteq> Some (gameId otherGame)"
    by (simp add: showWinPopup_shown ids)
  have h2: "hasShownWinPopupForGameId ?s2 \<noteq> Some (gameId tieGame)"
    by (simp add: showWinPopup_shown ids)
  obtain o1 where o1: "overlays ?s1 = overlays examplePage @ [o1]"
    using showWinPopup_creates [OF h0 pl(1)] by blast
  obtain o2 where o2: "overlays ?s2 = overlays ?s1 @ [o2]"
    using showWinPopup_creates [OF h1 pl(2)] by blast
  obtain o3 where o3: "overlays ?s3 = overlays ?s2 @ [o3]"
    using showWinPopup_creates [OF h2 pl(1)] by blast
  have e: "overlays examplePage = []"
    by (simp add: examplePage_def)
  have c: "overlaysCreatedFor None [tieGame, otherGame, tieGame] examplePage = [''g1'', ''g2'', ''g1'']"
    by (simp add: Let_def o1 o2 o3 ids)
  have l: "length (overlays (showAll None [tieGame, otherGame, tieGame] examplePage)) = 3"
    by (simp add: o1 o2 o3 e)
  show ?thesis
    unfolding c using l by simp
qed

text \<open>
  C9, as amended. A call whose game state carries the game id of the popup shown last
  returns without an exception and leaves the page state as it was. Every call appends at
  most one overlay and leaves its game id as the one shown last. Over any sequence of
  calls, the overlays created for a game id are at most as many as the runs of consecutive
  calls with that id; when no game id comes back after another one, that is at most one
  overlay per game id.
\<close>

theorem C9_win_popup:
  "(hasShownWinPopupForGameId st = Some (gameId g) \<longrightarrow> showWinPopup t g st = (None, st))
   \<and> (overlays (snd (showWinPopup t g st)) = overlays st
        \<or> (\<exists>ov. overlays (snd (showWinPopup t g st)) = overlays st @ [ov]))
   \<and> hasShownWinPopupForGameId (snd (showWinPopup t g st)) = Some (gameId g)
   \<and> count_list (overlaysCreatedFor t gs st) i \<le> count_list (remdups_adj (map gameId gs)) i
   \<and> (distinct (remdups_adj (map gameId gs)) \<longrightarrow> count_list (overlaysCreatedFor t gs st) i \<le> 1)"
proof -
  have "count_list (overlaysCreatedFor t gs st) i \<le> 1" if "distinct (remdups_adj (map gameId gs))"
  proof -
    have "count_list (remdups_adj (map gameId gs)) i \<le> 1"
      using that by (rule distinct_count_list_le)
    with created_le_runs [of t gs st i] show ?thesis by simp
  qed
  then show ?thesis
    using showWinPopup_guard [of st g t] showWinPopup_overlays [of t g st]
      showWinPopup_shown [of t g st] created_le_runs [of t gs st i]
    by blast
qed


theorem C9_win_popup_witness:
  "hasShownWinPopupForGameId (snd (showWinPopup None tieGame examplePage)) = Some (gameId tieGame)
   \<and> showWinPopup None tieGame (snd (showWinPopup None tieGame examplePage))
        = (None, snd (showWinPopup None tieGame examplePage))
   \<and> distinct (remdups_adj (map gameId [tieGame, tieGame, otherGame]))
   \<and> count_list (overlaysCreatedFor None [tieGame, tieGame, otherGame] examplePage) ''g1'' \<le> 1"
proof -
  let ?shown = "snd (showWinPopup None tieGame examplePage)"
  have d: "distinct (remdups_adj (map gameId [tieGame, tieGame, otherGame]))"
    by (simp add: tieGame_def otherGame_def)
  note t1 = C9_win_popup [of ?shown tieGame None "[tieGame, tieGame, otherGame]" "''g1''"]
  note t2 = C9_win_popup [of examplePage tieGame None "[tieGame, tieGame, otherGame]" "''g1''"]
  from t2 have h: "hasShownWinPopupForGameId ?shown = Some (gameId tieGame)"
    by blast
  with t1 have same: "showWinPopup None tieGame ?shown = (None, ?shown)"
    by blast
  from t2 d have "count_list (overlaysCreatedFor None [tieGame, tieGame, otherGame] examplePage) ''g1'' \<le> 1"
    by blast
  with h same d show ?thesis by blast
qed

section \<open>Confetti\<close>

lemma appendChild_sel [simp]:
  "childNodes (appendChild e x) = childNodes e @ [x]"
  "classes (appendChild e x) = classes e"
  "tagName (appendChild e x) = tagName e"
  by (cases e; simp)+
















section \<open>Properties of escapeHTML\<close>

lemma escapeChar_no_raw:
  "CHR ''<'' \<notin> set (escapeChar c)" "CHR ''>'' \<notin> set (escapeChar c)"
  "CHR 0x22 \<notin> set (escapeChar c)" "CHR 0x27 \<notin> set (escapeChar c)"
  by (simp_all add: escapeChar_def)

lemma escapeHTML_concat: "escapeHTML s = concat (map escapeChar s)"
  by (induction s) simp_all

lemma escapeHTML_set: "set (escapeHTML s) = (\<Union>c\<in>set s. set (escapeChar c))"
  by (induction s) auto

text \<open>
  C8. escapeHTML rewrites the string character by character: each of the five characters
  \<open>& < > " '\<close> becomes its entity, every other character stays as it is, and the result
  holds none of \<open>< > " '\<close>.
\<close>

theorem C8_escapeHTML:
  "escapeHTML s =
     concat (map (\<lambda>c. if c = CHR ''&'' then ''&amp;''
                       else if c = CHR ''<'' then ''&lt;''
                       else if c = CHR ''>'' then ''&gt;''
                       else if c = CHR 0x22 then ''&quot;''
                       else if c = CHR 0x27 then ''&#39;''
                       else [c]) s)
   \<and> set (escapeHTML s) \<inter> {CHR ''<'', CHR ''>'', CHR 0x22, CHR 0x27} = {}"
proof
  have "escapeChar = (\<lambda>c. if c = CHR ''&'' then ''&amp;''
                       else if c = CHR ''<'' then ''&lt;''
                       else if c = CHR ''>'' then ''&gt;''
                       else if c = CHR 0x22 then ''&quot;''
                       else if c = CHR 0x27 then ''&#39;''
                       else [c])"
    by (rule ext) (simp add: escapeChar_def)
  then show "escapeHTML s =
     concat (map (\<lambda>c. if c = CHR ''&'' then ''&amp;''
                       else if c = CHR ''<'' then ''&lt;''
                       else if c = CHR ''>'' then ''&gt;''
                       else if c = CHR 0x22 then ''&quot;''
                       else if c = CHR 0x27 then ''&#39;''
                       else [c]) s)"
    using escapeHTML_concat [of s] by simp
next
  show "set (escapeHTML s) \<inter> {CHR ''<'', CHR ''>'', CHR 0x22, CHR 0x27} = {}"
    using escapeChar_no_raw by (auto simp: escapeHTML_set)
qed

end
